theory Spec2Isabelle
  imports Complex_Main "HOL-Library.Sublist"
begin

section \<open>Data model\<close>

text \<open>
  A cell of a pandas DataFrame as the scripts see it: the outcome and fingerprint columns
  hold strings, and a missing entry is NaN. The outcome states are the \<open>.name\<close> strings of
  the members of the enumerations \<open>TEST_STATE\<close> and \<open>MERGE_STATE\<close>, so a state is the
  identifier of its member.
\<close>

datatype cell = Str string | NaN

definition Tests_passed :: cell where "Tests_passed = Str ''Tests_passed''"
definition Tests_failed :: cell where "Tests_failed = Str ''Tests_failed''"
definition Tests_timedout :: cell where "Tests_timedout = Str ''Tests_timedout''"
definition Merge_failed :: cell where "Merge_failed = Str ''Merge_failed''"

text \<open>The exceptions the modelled code raises.\<close>

datatype error =
    InvalidCase
  | KeyError string
  | AssertionError string string nat

type_synonym series = "cell list"

text \<open>A DataFrame: the row labels and the named columns, each as long as the index.\<close>

record dataframe =
  index :: "string list"
  columns :: "string \<rightharpoonup> series"

definition wf_df :: "dataframe \<Rightarrow> bool" where
  "wf_df df = (\<forall>c s. columns df c = Some s \<longrightarrow> length s = length (index df))"

type_synonym row = "string \<rightharpoonup> cell"

definition row_at :: "dataframe \<Rightarrow> nat \<Rightarrow> row" where
  "row_at df i = (\<lambda>c. map_option (\<lambda>s. s ! i) (columns df c))"

definition rows :: "dataframe \<Rightarrow> row list" where
  "rows df = map (row_at df) [0..<length (index df)]"

text \<open>\<open>row[c]\<close>: a missing column raises KeyError.\<close>

definition getitem :: "row \<Rightarrow> string \<Rightarrow> error + cell" where
  "getitem r c = (case r c of None \<Rightarrow> Inl (KeyError c) | Some v \<Rightarrow> Inr v)"

text \<open>Running a fallible function over a list stops at the first exception.\<close>

fun traverse :: "('a \<Rightarrow> error + 'b) \<Rightarrow> 'a list \<Rightarrow> error + 'b list" where
  "traverse f [] = Inr []"
| "traverse f (x # xs) =
     (case f x of
        Inl e \<Rightarrow> Inl e
      | Inr y \<Rightarrow> (case traverse f xs of Inl e \<Rightarrow> Inl e | Inr ys \<Rightarrow> Inr (y # ys)))"

text \<open>
  \<open>df.apply(f, axis=1)\<close>: \<open>f\<close> on every row, in index order. (On a frame without rows
  pandas does not take this path; the properties below are stated for frames with at
  least one row.)
\<close>

definition apply_rows :: "(row \<Rightarrow> error + cell) \<Rightarrow> dataframe \<Rightarrow> error + series" where
  "apply_rows f df = traverse f (rows df)"

text \<open>\<open>df[c] = v\<close> for a scalar \<open>v\<close> (broadcast) and for a series.\<close>

definition setitem_scalar :: "dataframe \<Rightarrow> string \<Rightarrow> cell \<Rightarrow> dataframe" where
  "setitem_scalar df c v = df\<lparr>columns := (columns df)(c \<mapsto> replicate (length (index df)) v)\<rparr>"

definition setitem :: "dataframe \<Rightarrow> string \<Rightarrow> series \<Rightarrow> dataframe" where
  "setitem df c s = df\<lparr>columns := (columns df)(c \<mapsto> s)\<rparr>"

section \<open>Outcome reconciliation (latex\_output.py)\<close>

text \<open>
  \<open>merge_two_states\<close>, latex\_output.py lines 409 to 424. The tests \<open>name in (a, b)\<close>
  compare a string with both arguments; the last line raises \<open>Exception("Invalid case")\<close>.
\<close>

definition merge_two_states :: "cell \<Rightarrow> cell \<Rightarrow> error + cell" where
  "merge_two_states merge_result1 merge_result2 =
     (if Tests_passed \<in> set [merge_result1, merge_result2] then Inr Tests_passed
      else if Merge_failed \<in> set [merge_result1, merge_result2] then Inr Merge_failed
      else if Tests_failed \<in> set [merge_result1, merge_result2] then Inr Tests_failed
      else if merge_result1 = Tests_timedout \<and> merge_result2 = Tests_timedout
        then Inr Tests_timedout
      else Inl InvalidCase)"

text \<open>Sequencing of two calls, the second on the value the first returns.\<close>

definition bind_err :: "error + 'a \<Rightarrow> ('a \<Rightarrow> error + 'b) \<Rightarrow> error + 'b" where
  "bind_err m f = (case m of Inl e \<Rightarrow> Inl e | Inr x \<Rightarrow> f x)"

text \<open>The states that remain once the undesirable states are filtered out.\<close>

definition valid_states :: "cell set" where
  "valid_states = {Tests_passed, Merge_failed, Tests_failed, Tests_timedout}"

text \<open>
  The oracle column, latex\_output.py lines 426 to 433. \<open>MERGE_TOOL\<close> is declared in a
  module that is not part of the sources, so the names of its members are the parameter
  \<open>merge_tools\<close>.
\<close>

definition oracle_row :: "string \<Rightarrow> row \<Rightarrow> error + cell" where
  "oracle_row merge_tool r =
     bind_err (getitem r ''Oracle tool'') (\<lambda>a.
     bind_err (getitem r merge_tool) (\<lambda>b.
       merge_two_states a b))"

fun oracle_loop :: "string list \<Rightarrow> dataframe \<Rightarrow> error + dataframe" where
  "oracle_loop [] df = Inr df"
| "oracle_loop (merge_tool # ts) df =
     (case apply_rows (oracle_row merge_tool) df of
        Inl e \<Rightarrow> Inl e
      | Inr s \<Rightarrow> oracle_loop ts (setitem df ''Oracle tool'' s))"

definition oracle_tool :: "string list \<Rightarrow> dataframe \<Rightarrow> error + dataframe" where
  "oracle_tool merge_tools df =
     oracle_loop merge_tools (setitem_scalar df ''Oracle tool'' Tests_failed)"

text \<open>The states the oracle column can hold: every state but "tests timed out".\<close>

definition good_states :: "cell set" where
  "good_states = {Tests_passed, Merge_failed, Tests_failed}"

text \<open>A table of two scenarios and two tools, used to instantiate the theorems below.\<close>

definition example_df :: dataframe where
  "example_df =
     \<lparr>index = [''0-0'', ''0-1''],
      columns = [''gitmerge_ort'' \<mapsto> [Tests_timedout, Tests_passed],
                 ''spork'' \<mapsto> [Tests_timedout, Merge_failed]]\<rparr>"

section \<open>Cost-tradeoff score (latex\_output.py)\<close>

text \<open>
  The body of the cost loop, lines 549 to 551, for one tool and one cost factor. The
  counts are Python integers and the cost factor is a float; the arithmetic is taken
  over the reals. A total of zero makes the division yield no number (numpy gives inf or
  nan), which is the value \<open>None\<close>.
\<close>

definition effort_reduction :: "int \<Rightarrow> int \<Rightarrow> int \<Rightarrow> real \<Rightarrow> real option" where
  "effort_reduction unhandled incorrect correct cost_factor =
     (if unhandled + incorrect + correct = 0 then None
      else
        let score = real_of_int unhandled * 1 + real_of_int incorrect * cost_factor;
            score = score / real_of_int (unhandled + incorrect + correct);
            score = 1 - score
        in Some score)"

section \<open>Fingerprint consistency (latex\_output.py)\<close>

text \<open>
  Element-wise \<open>==\<close> of two pandas series: two strings are compared as strings, and a
  missing value (NaN) is equal to nothing, not even to another missing value.
\<close>

fun cell_eq :: "cell \<Rightarrow> cell \<Rightarrow> bool" where
  "cell_eq (Str a) (Str b) = (a = b)"
| "cell_eq _ _ = False"

text \<open>\<open>df[c]\<close>: the column, or KeyError.\<close>

definition df_getitem :: "dataframe \<Rightarrow> string \<Rightarrow> error + series" where
  "df_getitem df c = (case columns df c of None \<Rightarrow> Inl (KeyError c) | Some s \<Rightarrow> Inr s)"

text \<open>Boolean masks: \<open>a == b\<close>, \<open>a & b\<close>, \<open>~a\<close>, \<open>a.sum()\<close> and \<open>df.loc[a]\<close>.\<close>

definition series_eq :: "series \<Rightarrow> series \<Rightarrow> bool list" where
  "series_eq a b = map2 cell_eq a b"

definition mask_and :: "bool list \<Rightarrow> bool list \<Rightarrow> bool list" where
  "mask_and a b = map2 (\<and>) a b"

definition mask_not :: "bool list \<Rightarrow> bool list" where
  "mask_not a = map Not a"

definition mask_sum :: "bool list \<Rightarrow> nat" where
  "mask_sum a = length (filter id a)"

definition select :: "bool list \<Rightarrow> 'a list \<Rightarrow> 'a list" where
  "select m xs = map snd (filter fst (zip m xs))"

text \<open>
  What \<open>logger.error\<close> receives: the message naming the two tools and the number of
  inconsistent rows, and the offending rows with their label and the three logged columns.
\<close>

datatype log_entry =
    LogInconsistency string string nat
  | LogRows "(string \<times> cell \<times> cell \<times> cell) list"

text \<open>
  The body of the two nested loops of \<open>check_fingerprint_consistency\<close>, lines 75 to 121:
  the four \<open>continue\<close> guards, then the comparison of the fingerprint and outcome columns,
  the two log calls and the assertion. The result is the log output and either the
  exception raised or normal completion.
\<close>

definition check_pair ::
  "dataframe \<Rightarrow> string \<Rightarrow> string \<Rightarrow> log_entry list \<times> (error + unit)" where
  "check_pair result_df merge_tool1 merge_tool2 =
     (if merge_tool1 = ''gitmerge_resolve'' \<or> merge_tool2 = ''gitmerge_resolve''
        then ([], Inr ())
      else if merge_tool1 = ''gitmerge_ort_adjacent'' \<or> merge_tool2 = ''gitmerge_ort_adjacent''
        then ([], Inr ())
      else if merge_tool1 = ''gitmerge_ort_imports'' \<or> merge_tool2 = ''gitmerge_ort_imports''
        then ([], Inr ())
      else if merge_tool1 = ''gitmerge_ort_imports_ignorespace''
              \<or> merge_tool2 = ''gitmerge_ort_imports_ignorespace''
        then ([], Inr ())
      else if merge_tool1 \<noteq> merge_tool2 then
        (case df_getitem result_df (merge_tool1 @ ''_merge_fingerprint'') of
           Inl e \<Rightarrow> ([], Inl e)
         | Inr fp1 \<Rightarrow>
        (case df_getitem result_df (merge_tool2 @ ''_merge_fingerprint'') of
           Inl e \<Rightarrow> ([], Inl e)
         | Inr fp2 \<Rightarrow>
        (case df_getitem result_df merge_tool1 of
           Inl e \<Rightarrow> ([], Inl e)
         | Inr res1 \<Rightarrow>
        (case df_getitem result_df merge_tool2 of
           Inl e \<Rightarrow> ([], Inl e)
         | Inr res2 \<Rightarrow>
           let same_fingerprint_mask = series_eq fp1 fp2;
               same_result_mask = series_eq res1 res2;
               inconsistent_mask = mask_and same_fingerprint_mask (mask_not same_result_mask);
               n = mask_sum inconsistent_mask;
               logged =
                 (if n > 0 then
                    [LogInconsistency merge_tool1 merge_tool2 n,
                     LogRows (select inconsistent_mask
                                (zip (index result_df) (zip res1 (zip res2 fp1))))]
                  else [])
           in (logged, if n = 0 then Inr () else Inl (AssertionError merge_tool1 merge_tool2 n))))))
      else ([], Inr ()))"

fun inner_loop ::
  "dataframe \<Rightarrow> string \<Rightarrow> string list \<Rightarrow> log_entry list \<times> (error + unit)" where
  "inner_loop result_df merge_tool1 [] = ([], Inr ())"
| "inner_loop result_df merge_tool1 (merge_tool2 # ts) =
     (case check_pair result_df merge_tool1 merge_tool2 of
        (logged, Inl e) \<Rightarrow> (logged, Inl e)
      | (logged, Inr _) \<Rightarrow>
          (case inner_loop result_df merge_tool1 ts of (logged', r) \<Rightarrow> (logged @ logged', r)))"

fun outer_loop ::
  "dataframe \<Rightarrow> string list \<Rightarrow> string list \<Rightarrow> log_entry list \<times> (error + unit)" where
  "outer_loop result_df merge_tools [] = ([], Inr ())"
| "outer_loop result_df merge_tools (merge_tool1 # ts) =
     (case inner_loop result_df merge_tool1 merge_tools of
        (logged, Inl e) \<Rightarrow> (logged, Inl e)
      | (logged, Inr _) \<Rightarrow>
          (case outer_loop result_df merge_tools ts of (logged', r) \<Rightarrow> (logged @ logged', r)))"

definition check_fingerprint_consistency ::
  "dataframe \<Rightarrow> string list \<Rightarrow> log_entry list \<times> (error + unit)" where
  "check_fingerprint_consistency result_df merge_tools =
     outer_loop result_df merge_tools merge_tools"

text \<open>The tools the four guards skip.\<close>

definition excluded_tools :: "string set" where
  "excluded_tools = {''gitmerge_resolve'', ''gitmerge_ort_adjacent'', ''gitmerge_ort_imports'',
                     ''gitmerge_ort_imports_ignorespace''}"

text \<open>
  The tools the specification documents as excluded: the adjacency-based and the
  import-reordering variants.
\<close>

definition documented_exclusions :: "string set" where
  "documented_exclusions = {''gitmerge_ort_adjacent'', ''gitmerge_ort_imports'',
                            ''gitmerge_ort_imports_ignorespace''}"

text \<open>Row i has equal fingerprints and different outcomes for the two tools.\<close>

definition inconsistent_row :: "dataframe \<Rightarrow> string \<Rightarrow> string \<Rightarrow> nat \<Rightarrow> bool" where
  "inconsistent_row df t1 t2 i =
     (case (row_at df i (t1 @ ''_merge_fingerprint''), row_at df i (t2 @ ''_merge_fingerprint''),
            row_at df i t1, row_at df i t2) of
        (Some f1, Some f2, Some r1, Some r2) \<Rightarrow> cell_eq f1 f2 \<and> \<not> cell_eq r1 r2
      | _ \<Rightarrow> False)"

text \<open>The positions of the inconsistent rows, and what is logged for one of them.\<close>

definition offending_rows :: "dataframe \<Rightarrow> string \<Rightarrow> string \<Rightarrow> nat list" where
  "offending_rows df t1 t2 = filter (inconsistent_row df t1 t2) [0..<length (index df)]"

definition logged_row :: "dataframe \<Rightarrow> string \<Rightarrow> string \<Rightarrow> nat \<Rightarrow> string \<times> cell \<times> cell \<times> cell" where
  "logged_row df t1 t2 i =
     (index df ! i, the (row_at df i t1), the (row_at df i t2),
      the (row_at df i (t1 @ ''_merge_fingerprint'')))"

text \<open>The table has the outcome column and the fingerprint column of a tool.\<close>

definition has_columns :: "dataframe \<Rightarrow> string \<Rightarrow> bool" where
  "has_columns df t = (t \<in> dom (columns df) \<and> t @ ''_merge_fingerprint'' \<in> dom (columns df))"

text \<open>
  A pair of tools the check compares and finds inconsistent, and the result of the check
  when it stops at such a pair.
\<close>

definition bad_pair :: "dataframe \<Rightarrow> string \<Rightarrow> string \<Rightarrow> bool" where
  "bad_pair df t1 t2 =
     (t1 \<notin> excluded_tools \<and> t2 \<notin> excluded_tools \<and> t1 \<noteq> t2 \<and> offending_rows df t1 t2 \<noteq> [])"

definition failure :: "dataframe \<Rightarrow> string \<Rightarrow> string \<Rightarrow> log_entry list \<times> (error + unit)" where
  "failure df t1 t2 =
     ([LogInconsistency t1 t2 (length (offending_rows df t1 t2)),
       LogRows (map (logged_row df t1 t2) (offending_rows df t1 t2))],
      Inl (AssertionError t1 t2 (length (offending_rows df t1 t2))))"

text \<open>
  Two small tables: in the first the two tools of the only row share a fingerprint and
  differ in outcome, one of them being \<open>gitmerge_resolve\<close>; in the second the tools
  \<open>spork\<close> and \<open>gitmerge_ort\<close> agree on the first row and are inconsistent on the second.
\<close>

definition resolve_df :: dataframe where
  "resolve_df =
     \<lparr>index = [''0-0''],
      columns = [''gitmerge_resolve'' \<mapsto> [Tests_passed],
                 ''gitmerge_ort'' \<mapsto> [Tests_failed],
                 ''gitmerge_resolve_merge_fingerprint'' \<mapsto> [Str ''abc''],
                 ''gitmerge_ort_merge_fingerprint'' \<mapsto> [Str ''abc'']]\<rparr>"

definition spork_df :: dataframe where
  "spork_df =
     \<lparr>index = [''0-0'', ''0-1''],
      columns = [''spork'' \<mapsto> [Tests_passed, Tests_passed],
                 ''gitmerge_ort'' \<mapsto> [Tests_passed, Tests_failed],
                 ''spork_merge_fingerprint'' \<mapsto> [Str ''abc'', Str ''abd''],
                 ''gitmerge_ort_merge_fingerprint'' \<mapsto> [Str ''abc'', Str ''abd'']]\<rparr>"

section \<open>Library functions the scripts call\<close>

subsection \<open>\<open>str\<close> of an integer\<close>

definition digit_char :: "nat \<Rightarrow> char" where
  "digit_char d = ''0123456789'' ! d"

fun str_nat :: "nat \<Rightarrow> string" where
  "str_nat n = (if n < 10 then [digit_char n] else str_nat (n div 10) @ [digit_char (n mod 10)])"

definition str_int :: "int \<Rightarrow> string" where
  "str_int i = (if i < 0 then CHR ''-'' # str_nat (nat (- i)) else str_nat (nat i))"

subsection \<open>\<open>os.path\<close> on POSIX\<close>

text \<open>
  \<open>os.path.join(a, *p)\<close>: a component that starts with a slash replaces what was
  joined so far; otherwise it is appended, after a slash unless the path so far is empty
  or ends with one.
\<close>

definition join2 :: "string \<Rightarrow> string \<Rightarrow> string" where
  "join2 path b =
     (if prefix ''/'' b then b
      else if path = [] \<or> last path = CHR ''/'' then path @ b
      else path @ ''/'' @ b)"

definition path_join :: "string \<Rightarrow> string list \<Rightarrow> string" where
  "path_join a p = foldl join2 a p"

text \<open>\<open>s.rfind(c)\<close>: the index of the last occurrence of a character, or -1.\<close>

fun rfind_opt :: "char \<Rightarrow> string \<Rightarrow> nat option" where
  "rfind_opt c [] = None"
| "rfind_opt c (x # xs) =
     (case rfind_opt c xs of
        Some i \<Rightarrow> Some (Suc i)
      | None \<Rightarrow> if x = c then Some 0 else None)"

definition rfind :: "char \<Rightarrow> string \<Rightarrow> int" where
  "rfind c s = (case rfind_opt c s of None \<Rightarrow> - 1 | Some i \<Rightarrow> int i)"

text \<open>\<open>os.path.basename(p)\<close>: what follows the last slash.\<close>

definition basename :: "string \<Rightarrow> string" where
  "basename p = (let i = rfind CHR ''/'' p + 1 in drop (nat i) p)"

text \<open>
  \<open>os.path.dirname(p)\<close>: what precedes the last slash, without its trailing slashes
  unless it consists of slashes only.
\<close>

definition rstrip_slash :: "string \<Rightarrow> string" where
  "rstrip_slash s = rev (dropWhile (\<lambda>c. c = CHR ''/'') (rev s))"

definition dirname :: "string \<Rightarrow> string" where
  "dirname p =
     (let i = rfind CHR ''/'' p + 1;
          head = take (nat i) p
      in if head \<noteq> [] \<and> head \<noteq> replicate (length head) CHR ''/'' then rstrip_slash head
         else head)"

text \<open>
  \<open>os.path.splitext(p)\<close>: the split is at the last dot, provided the dot comes after the
  last slash and some character between that slash and the dot is not a dot (the loop
  that skips leading dots); otherwise the extension is empty.
\<close>

fun skip_leading_dots :: "string \<Rightarrow> bool" where
  "skip_leading_dots [] = False"
| "skip_leading_dots (c # cs) = (if c \<noteq> CHR ''.'' then True else skip_leading_dots cs)"

definition splitext :: "string \<Rightarrow> string \<times> string" where
  "splitext p =
     (let sepIndex = rfind CHR ''/'' p;
          dotIndex = rfind CHR ''.'' p
      in if dotIndex > sepIndex
            \<and> skip_leading_dots (take (nat (dotIndex - (sepIndex + 1))) (drop (nat (sepIndex + 1)) p))
         then (take (nat dotIndex) p, drop (nat dotIndex) p)
         else (p, []))"

subsection \<open>\<open>re.findall\<close> with the conflict pattern\<close>

text \<open>
  The pattern \<open>CONFLICT \(.+\): Merge conflict in (.+)\<close> as a backtracking matcher in
  continuation style. A literal must be a prefix of the text. \<open>.+\<close> is greedy: it takes
  the longest run of characters other than the newline and gives characters back one
  at a time, down to one, until the rest of the pattern matches. The group \<open>(.+)\<close>
  hands the text it matched to the continuation. The matcher returns the group and the
  text after the match.
\<close>

definition newline :: char where
  "newline = CHR 0x0A"

fun try_lengths :: "nat \<Rightarrow> (nat \<Rightarrow> 'a option) \<Rightarrow> 'a option" where
  "try_lengths 0 k = None"
| "try_lengths (Suc n) k = (case k (Suc n) of Some r \<Rightarrow> Some r | None \<Rightarrow> try_lengths n k)"

definition dot_run :: "string \<Rightarrow> nat" where
  "dot_run s = length (takeWhile (\<lambda>c. c \<noteq> newline) s)"

definition lit :: "string \<Rightarrow> (string \<Rightarrow> 'a option) \<Rightarrow> string \<Rightarrow> 'a option" where
  "lit p k s = (if prefix p s then k (drop (length p) s) else None)"

definition dot_plus :: "(string \<Rightarrow> 'a option) \<Rightarrow> string \<Rightarrow> 'a option" where
  "dot_plus k s = try_lengths (dot_run s) (\<lambda>n. k (drop n s))"

definition group_dot_plus :: "(string \<Rightarrow> string \<Rightarrow> 'a option) \<Rightarrow> string \<Rightarrow> 'a option" where
  "group_dot_plus k s = try_lengths (dot_run s) (\<lambda>n. k (take n s) (drop n s))"

definition conflict_re :: "string \<Rightarrow> (string \<times> string) option" where
  "conflict_re =
     lit ''CONFLICT (''
       (dot_plus
         (lit ''): Merge conflict in ''
           (group_dot_plus (\<lambda>g rest. Some (g, rest)))))"

text \<open>
  \<open>re.findall\<close>: the matcher is tried at every position from left to right; after a
  match the scan goes on where the match ended (the first argument counts the
  characters of the match still to pass), and the groups are collected in order.
\<close>

fun findall_from :: "nat \<Rightarrow> string \<Rightarrow> string list" where
  "findall_from n [] = []"
| "findall_from (Suc n) (c # cs) = findall_from n cs"
| "findall_from 0 (c # cs) =
     (case conflict_re (c # cs) of
        None \<Rightarrow> findall_from 0 cs
      | Some (g, rest) \<Rightarrow> g # findall_from (length cs - length rest) cs)"

definition findall :: "string \<Rightarrow> string list" where
  "findall s = findall_from 0 s"

subsection \<open>Console output of a merge tool, line by line\<close>

text \<open>
  The lines a merge tool prints: a conflict line
  \<open>CONFLICT (<kind>): Merge conflict in <path>\<close>, or any other line. A conflict line is
  well formed when kind and path are not empty and hold no newline, and the path does
  not itself contain the text that separates kind and path; another line is well formed
  when it holds no newline and nowhere the text \<open>CONFLICT (\<close>.
\<close>

datatype console_line = Conflict string string | Other string

definition separator :: string where
  "separator = ''): Merge conflict in ''"

fun render_line :: "console_line \<Rightarrow> string" where
  "render_line (Conflict kind path) = ''CONFLICT ('' @ kind @ separator @ path"
| "render_line (Other t) = t"

definition render :: "console_line list \<Rightarrow> string" where
  "render ls = concat (map (\<lambda>l. render_line l @ [newline]) ls)"

fun wf_line :: "console_line \<Rightarrow> bool" where
  "wf_line (Conflict kind path) =
     (kind \<noteq> [] \<and> path \<noteq> [] \<and> newline \<notin> set kind \<and> newline \<notin> set path
      \<and> \<not> sublist separator path)"
| "wf_line (Other t) = (newline \<notin> set t \<and> \<not> sublist ''CONFLICT ('' t)"

fun conflict_paths :: "console_line list \<Rightarrow> string list" where
  "conflict_paths [] = []"
| "conflict_paths (Conflict kind path # ls) = path # conflict_paths ls"
| "conflict_paths (Other t # ls) = conflict_paths ls"

text \<open>
  A matcher is local to a line when, on a text that continues after the line with
  \<open>tail\<close>, it matches what it matches on the line alone and leaves \<open>tail\<close> untouched.
\<close>

definition line_local :: "string \<Rightarrow> (string \<Rightarrow> (string \<times> string) option) \<Rightarrow> bool" where
  "line_local tail m =
     (\<forall>x. newline \<notin> set x \<longrightarrow> m (x @ tail) = map_option (\<lambda>(g, rest). (g, rest @ tail)) (m x))"

section \<open>The diff3 evaluation scripts (diff3\_pair\_analysis.py, diff3\_analysis.py)\<close>

text \<open>
  What \<open>subprocess.run\<close> returns for a process whose output is captured as text.
\<close>

record completed_process =
  stdout :: string
  stderr :: string

text \<open>
  The surroundings of one run: the repository name and the two parent commits read from
  the result table, what the merge tool prints, the programs \<open>diff3\<close> and \<open>diff\<close> as functions of the paths they are
  given (the checked-out trees do not change while the conflicting files are compared),
  and whether \<open>xdg-open\<close> exits with a non-zero status.
\<close>

record world =
  repo_name :: string
  left_sha :: string
  right_sha :: string
  merge_stdout :: string
  diff3 :: "string \<Rightarrow> string \<Rightarrow> string \<Rightarrow> completed_process"
  diff :: "string \<Rightarrow> string \<Rightarrow> completed_process"
  xdg_open_fails :: bool

text \<open>
  What a run does, in order: lines printed, programs started, the error stream of a
  program that is not captured and so reaches the terminal, directories created and
  files written.
\<close>

datatype event =
    Print string
  | PrintList "string list"
  | RunDiff3 string string string
  | RunDiff string string
  | TerminalStderr string
  | MakeDirs string
  | WriteFile string string
  | WriteTemp string
  | XdgOpen
  | RemoveTemp

datatype process_error = CalledProcessError

text \<open>
  The comparison block, the same text at diff3\_pair\_analysis.py lines 133 to 157 and 194
  to 218 and at diff3\_analysis.py lines 80 to 104: \<open>diff3\<close> with both streams captured,
  and when its error stream contains \<open>No such file or directory\<close>, \<open>diff\<close> of the merge
  attempt and the programmer merge with only the output captured. The result is the
  events and the \<open>stdout\<close> of the last \<open>diff_results\<close>.
\<close>

definition error_message :: string where
  "error_message = ''No such file or directory''"

definition run_comparison ::
  "world \<Rightarrow> string \<Rightarrow> string \<Rightarrow> string \<Rightarrow> event list \<times> string" where
  "run_comparison w conflict_path_base conflict_path_merge_attempt conflict_path_programmer_merge =
     (let diff_results =
            diff3 w conflict_path_base conflict_path_merge_attempt conflict_path_programmer_merge;
          started =
            [RunDiff3 conflict_path_base conflict_path_merge_attempt conflict_path_programmer_merge]
      in if sublist error_message (stderr diff_results) then
           (let diff_results = diff w conflict_path_merge_attempt conflict_path_programmer_merge
            in (started @ [RunDiff conflict_path_merge_attempt conflict_path_programmer_merge,
                           TerminalStderr (stderr diff_results)],
                stdout diff_results))
         else (started, stdout diff_results))"

text \<open>
  The report of one comparison, diff3\_pair\_analysis.py lines 163 to 181 and 221 to 239:
  the file name, \<open>os.makedirs\<close> of its directory, the file written with the captured
  output, and the line printed.
\<close>

definition diff_filename :: "string \<Rightarrow> int \<Rightarrow> string \<Rightarrow> string \<Rightarrow> string" where
  "diff_filename repo_output_dir results_index merge_tool conflicting_file_base =
     path_join repo_output_dir
       [str_int results_index, merge_tool, ''diff_'' @ conflicting_file_base @ ''.txt'']"

definition write_report :: "string \<Rightarrow> string \<Rightarrow> event list" where
  "write_report diff_filename_v diff_text =
     (let output_dir = dirname diff_filename_v
      in [MakeDirs output_dir, WriteFile diff_filename_v diff_text,
          Print (''Diff results saved to '' @ diff_filename_v)])"

text \<open>The body of the loop over the conflicting files, lines 121 to 239.\<close>

definition analyse_file ::
  "world \<Rightarrow> string \<Rightarrow> string \<Rightarrow> int \<Rightarrow> string \<Rightarrow> string \<Rightarrow> event list" where
  "analyse_file w merge_tool1 merge_tool2 results_index repo_output_dir conflict_file_match =
     (let conflicting_file = conflict_file_match;
          conflict_path = path_join (repo_name w) [conflicting_file];
          conflict_path_merge_attempt = path_join ''./repos/merge_attempt1'' [conflict_path];
          conflict_path_base = path_join ''./repos/base'' [conflict_path];
          conflict_path_programmer_merge = path_join ''./repos/programmer_merge'' [conflict_path];
          (events1, diff_text1) =
            run_comparison w conflict_path_base conflict_path_merge_attempt
              conflict_path_programmer_merge;
          conflicting_file_base = fst (splitext (basename conflicting_file));
          diff_filename1 =
            diff_filename repo_output_dir results_index merge_tool1 conflicting_file_base;
          conflict_path_merge_attempt = path_join ''./repos/merge_attempt2'' [conflict_path];
          (events2, diff_text2) =
            run_comparison w conflict_path_base conflict_path_merge_attempt
              conflict_path_programmer_merge;
          diff_filename2 =
            diff_filename repo_output_dir results_index merge_tool2 conflicting_file_base
      in events1 @ write_report diff_filename1 diff_text1
         @ events2 @ write_report diff_filename2 diff_text2)"

text \<open>
  \<open>diff3_pair_analysis\<close> from the point where the merge tool has run (line 89): the
  conflicting files are extracted and the output is printed; without a conflicting file
  the function returns, otherwise every reported file is compared and reported for both
  tools. Cloning and checking out the working copies, before that point and between the
  extraction and the loop, is not part of the model; the two lines printed while the
  second working copy is checked out are.
\<close>

definition diff3_pair_analysis ::
  "world \<Rightarrow> string \<Rightarrow> string \<Rightarrow> int \<Rightarrow> string \<Rightarrow> event list" where
  "diff3_pair_analysis w merge_tool1 merge_tool2 results_index repo_output_dir =
     (let conflict_file_matches = findall (merge_stdout w)
      in Print (merge_stdout w) #
         (if conflict_file_matches = [] then [Print ''No conflict files to search'']
          else PrintList conflict_file_matches #
               Print (''Checking out left'' @ left_sha w) #
               Print (''Checking out right'' @ right_sha w) #
               concat (map (analyse_file w merge_tool1 merge_tool2 results_index repo_output_dir)
                         conflict_file_matches)))"

text \<open>
  \<open>diff3_analysis\<close> from line 52: every reported file is compared, the output is written
  to a temporary file and shown with \<open>xdg-open\<close>, whose failure raises and ends the run;
  otherwise the temporary file is removed. After the loop a line is printed; the removal
  of the working copies that follows is not part of the model.
\<close>

definition diff3_analysis_file :: "world \<Rightarrow> string \<Rightarrow> event list" where
  "diff3_analysis_file w conflict_file_match =
     (let conflicting_file = conflict_file_match;
          conflict_path = path_join (repo_name w) [conflicting_file];
          conflict_path_merge_attempt = path_join ''./repos/merge_attempt'' [conflict_path];
          conflict_path_base = path_join ''./repos/base'' [conflict_path];
          conflict_path_programmer_merge = path_join ''./repos/programmer_merge'' [conflict_path];
          (events, diff_text) =
            run_comparison w conflict_path_base conflict_path_merge_attempt
              conflict_path_programmer_merge
      in events @ [WriteTemp diff_text, XdgOpen])"

fun diff3_analysis_loop :: "world \<Rightarrow> string list \<Rightarrow> event list \<times> (process_error + unit)" where
  "diff3_analysis_loop w [] = ([], Inr ())"
| "diff3_analysis_loop w (conflict_file_match # ms) =
     (let events = diff3_analysis_file w conflict_file_match
      in if xdg_open_fails w then (events, Inl CalledProcessError)
         else (case diff3_analysis_loop w ms of
                 (events', r) \<Rightarrow> (events @ RemoveTemp # events', r)))"

definition diff3_analysis :: "world \<Rightarrow> event list \<times> (process_error + unit)" where
  "diff3_analysis w =
     (case diff3_analysis_loop w (findall (merge_stdout w)) of
        (events, Inl e) \<Rightarrow> (events, Inl e)
      | (events, Inr u) \<Rightarrow> (events @ [Print ''reached delete repo''], Inr u))"

text \<open>The files a run leaves on disk, and the events that are a diff or a write.\<close>

fun persisted :: "event list \<Rightarrow> (string \<times> string) list" where
  "persisted [] = []"
| "persisted (WriteFile p t # es) = (p, t) # persisted es"
| "persisted (e # es) = persisted es"

fun is_diff_or_write :: "event \<Rightarrow> bool" where
  "is_diff_or_write (RunDiff3 b a p) = True"
| "is_diff_or_write (RunDiff a p) = True"
| "is_diff_or_write (MakeDirs d) = True"
| "is_diff_or_write (WriteFile p t) = True"
| "is_diff_or_write (WriteTemp t) = True"
| "is_diff_or_write e = False"

text \<open>
  A run whose merge tool reports no conflict, and four runs on one add/add conflict in
  \<open>f.txt\<close> of repository \<open>r\<close>. In the first the base file is missing and the merge
  attempts equal the programmer merge; in the second the three files are equal. In the
  third \<open>diff3\<close> reports that memory is exhausted; the fourth is the same run without
  that diagnostic.
\<close>

definition world_clean :: world where
  "world_clean =
     \<lparr>repo_name = ''r'', left_sha = ''1a'', right_sha = ''2b'',
      merge_stdout = ''Auto-merging f.txt'' @ [newline],
      diff3 = (\<lambda>b a p. \<lparr>stdout = [], stderr = []\<rparr>),
      diff = (\<lambda>a p. \<lparr>stdout = [], stderr = []\<rparr>),
      xdg_open_fails = False\<rparr>"

definition conflict_output :: string where
  "conflict_output = ''CONFLICT (add/add): Merge conflict in f.txt'' @ [newline]"

definition world_missing_base :: world where
  "world_missing_base =
     \<lparr>repo_name = ''r'', left_sha = ''1a'', right_sha = ''2b'',
      merge_stdout = conflict_output,
      diff3 = (\<lambda>b a p. \<lparr>stdout = [],
                          stderr = ''diff3: '' @ b @ '': No such file or directory''\<rparr>),
      diff = (\<lambda>a p. \<lparr>stdout = [], stderr = []\<rparr>),
      xdg_open_fails = False\<rparr>"

definition world_equal_files :: world where
  "world_equal_files =
     \<lparr>repo_name = ''r'', left_sha = ''1a'', right_sha = ''2b'',
      merge_stdout = conflict_output,
      diff3 = (\<lambda>b a p. \<lparr>stdout = [], stderr = []\<rparr>),
      diff = (\<lambda>a p. \<lparr>stdout = [], stderr = []\<rparr>),
      xdg_open_fails = False\<rparr>"

definition world_noisy :: world where
  "world_noisy =
     \<lparr>repo_name = ''r'', left_sha = ''1a'', right_sha = ''2b'',
      merge_stdout = conflict_output,
      diff3 = (\<lambda>b a p. \<lparr>stdout = ''===='', stderr = ''diff3: memory exhausted''\<rparr>),
      diff = (\<lambda>a p. \<lparr>stdout = [], stderr = []\<rparr>),
      xdg_open_fails = False\<rparr>"

definition world_quiet :: world where
  "world_quiet =
     \<lparr>repo_name = ''r'', left_sha = ''1a'', right_sha = ''2b'',
      merge_stdout = conflict_output,
      diff3 = (\<lambda>b a p. \<lparr>stdout = ''===='', stderr = []\<rparr>),
      diff = (\<lambda>a p. \<lparr>stdout = [], stderr = []\<rparr>),
      xdg_open_fails = False\<rparr>"

section \<open>Properties of the reconciliation\<close>

lemmas state_defs = Tests_passed_def Tests_failed_def Tests_timedout_def Merge_failed_def

lemma states_distinct:
  "Tests_passed \<noteq> Merge_failed" "Tests_passed \<noteq> Tests_failed" "Tests_passed \<noteq> Tests_timedout"
  "Merge_failed \<noteq> Tests_passed" "Merge_failed \<noteq> Tests_failed" "Merge_failed \<noteq> Tests_timedout"
  "Tests_failed \<noteq> Tests_passed" "Tests_failed \<noteq> Merge_failed" "Tests_failed \<noteq> Tests_timedout"
  "Tests_timedout \<noteq> Tests_passed" "Tests_timedout \<noteq> Merge_failed" "Tests_timedout \<noteq> Tests_failed"
  "Tests_passed \<noteq> NaN" "Merge_failed \<noteq> NaN" "Tests_failed \<noteq> NaN" "Tests_timedout \<noteq> NaN"
  "NaN \<noteq> Tests_passed" "NaN \<noteq> Merge_failed" "NaN \<noteq> Tests_failed" "NaN \<noteq> Tests_timedout"
  by (simp_all add: state_defs)

lemma merge_two_states_table:
  "merge_two_states Tests_passed x = Inr Tests_passed"
  "merge_two_states x Tests_passed = Inr Tests_passed"
  "merge_two_states Merge_failed Merge_failed = Inr Merge_failed"
  "merge_two_states Merge_failed Tests_failed = Inr Merge_failed"
  "merge_two_states Merge_failed Tests_timedout = Inr Merge_failed"
  "merge_two_states Tests_failed Merge_failed = Inr Merge_failed"
  "merge_two_states Tests_timedout Merge_failed = Inr Merge_failed"
  "merge_two_states Tests_failed Tests_failed = Inr Tests_failed"
  "merge_two_states Tests_failed Tests_timedout = Inr Tests_failed"
  "merge_two_states Tests_timedout Tests_failed = Inr Tests_failed"
  "merge_two_states Tests_timedout Tests_timedout = Inr Tests_timedout"
  by (simp_all add: merge_two_states_def states_distinct)

lemma merge_two_states_valid:
  "a \<in> valid_states \<Longrightarrow> b \<in> valid_states \<Longrightarrow>
     \<exists>r \<in> valid_states. merge_two_states a b = Inr r"
  by (auto simp: valid_states_def merge_two_states_table)

text \<open>
  C1. The precedence table of \<open>merge_two_states\<close>: "tests passed" if either argument is,
  else "merge failed" if either is, else "tests failed" if either is, else "tests timed
  out" if both are, and the invalid-case exception for every other pair. In particular
  "tests passed" with any second argument gives "tests passed".
\<close>

theorem merge_two_states_precedence:
  "(a = Tests_passed \<or> b = Tests_passed \<longrightarrow> merge_two_states a b = Inr Tests_passed)
   \<and> (a \<noteq> Tests_passed \<and> b \<noteq> Tests_passed \<and> (a = Merge_failed \<or> b = Merge_failed)
        \<longrightarrow> merge_two_states a b = Inr Merge_failed)
   \<and> (a \<notin> {Tests_passed, Merge_failed} \<and> b \<notin> {Tests_passed, Merge_failed}
        \<and> (a = Tests_failed \<or> b = Tests_failed)
        \<longrightarrow> merge_two_states a b = Inr Tests_failed)
   \<and> (a = Tests_timedout \<and> b = Tests_timedout
        \<longrightarrow> merge_two_states a b = Inr Tests_timedout)
   \<and> (a \<notin> {Tests_passed, Merge_failed, Tests_failed}
        \<and> b \<notin> {Tests_passed, Merge_failed, Tests_failed}
        \<and> \<not> (a = Tests_timedout \<and> b = Tests_timedout)
        \<longrightarrow> merge_two_states a b = Inl InvalidCase)
   \<and> merge_two_states Tests_passed x = Inr Tests_passed"
  by (auto simp: merge_two_states_def states_distinct)

theorem merge_two_states_precedence_witness:
  "merge_two_states Tests_timedout Tests_passed = Inr Tests_passed
   \<and> merge_two_states Merge_failed Tests_failed = Inr Merge_failed
   \<and> merge_two_states Tests_timedout Tests_failed = Inr Tests_failed
   \<and> merge_two_states Tests_timedout Tests_timedout = Inr Tests_timedout
   \<and> merge_two_states NaN Tests_timedout = Inl InvalidCase"
  using merge_two_states_precedence [of Tests_timedout Tests_passed]
    merge_two_states_precedence [of Merge_failed Tests_failed]
    merge_two_states_precedence [of Tests_timedout Tests_failed]
    merge_two_states_precedence [of Tests_timedout Tests_timedout]
    merge_two_states_precedence [of NaN Tests_timedout]
  by (simp add: states_distinct)

lemma merge_two_states_good:
  "a \<in> good_states \<Longrightarrow> \<exists>r \<in> good_states. merge_two_states a b = Inr r"
  by (auto simp: good_states_def merge_two_states_def states_distinct)

lemma merge_failed_timedout:
  "merge_two_states Tests_failed Tests_timedout = Inr Tests_failed"
  by (simp add: merge_two_states_table)

lemma traverse_map: "traverse f (map g xs) = traverse (\<lambda>x. f (g x)) xs"
  by (induction xs) (simp_all split: sum.splits)

lemma traverse_total:
  "(\<And>x. x \<in> set xs \<Longrightarrow> \<exists>y. P x y \<and> f x = Inr y) \<Longrightarrow>
     \<exists>ys. traverse f xs = Inr ys \<and> list_all2 P xs ys"
proof (induction xs)
  case Nil
  then show ?case by simp
next
  case (Cons x xs)
  from Cons.prems obtain y where y: "P x y" "f x = Inr y" by auto
  from Cons obtain ys where ys: "traverse f xs = Inr ys" "list_all2 P xs ys" by auto
  from y ys show ?case by simp
qed

lemma apply_oracle_row:
  assumes wf: "wf_df df"
    and orc: "columns df ''Oracle tool'' = Some orc"
    and col: "columns df t = Some col"
    and good: "set orc \<subseteq> good_states"
  shows "\<exists>s. apply_rows (oracle_row t) df = Inr s \<and> length s = length (index df)
           \<and> set s \<subseteq> good_states
           \<and> (\<forall>i < length (index df). merge_two_states (orc ! i) (col ! i) = Inr (s ! i))"
proof -
  let ?n = "length (index df)"
  let ?P = "\<lambda>i y. y \<in> good_states \<and> merge_two_states (orc ! i) (col ! i) = Inr y"
  from wf orc have lo: "length orc = ?n" by (simp add: wf_df_def)
  have step: "\<exists>y. ?P i y \<and> oracle_row t (row_at df i) = Inr y" if "i \<in> set [0..<?n]" for i
  proof -
    from that lo good have "orc ! i \<in> good_states" by auto
    then obtain r where "r \<in> good_states" "merge_two_states (orc ! i) (col ! i) = Inr r"
      using merge_two_states_good by blast
    then show ?thesis
      by (simp add: oracle_row_def getitem_def row_at_def orc col bind_err_def)
  qed
  from traverse_total [of "[0..<?n]" ?P "\<lambda>i. oracle_row t (row_at df i)", OF step]
  obtain s where s: "traverse (\<lambda>i. oracle_row t (row_at df i)) [0..<?n] = Inr s"
    "list_all2 ?P [0..<?n] s" by blast
  from s(2) have len: "length s = ?n" by (auto dest: list_all2_lengthD)
  from s(2) len have nth: "\<forall>i < ?n. ?P i (s ! i)"
    by (auto simp: list_all2_conv_all_nth)
  from nth len have "set s \<subseteq> good_states" by (auto simp: in_set_conv_nth)
  with s(1) len nth show ?thesis
    by (auto simp: apply_rows_def rows_def traverse_map)
qed

lemma oracle_loop_inv:
  assumes "wf_df df"
    and "columns df ''Oracle tool'' = Some orc"
    and "set orc \<subseteq> good_states"
    and "\<forall>t \<in> set ts. t \<in> dom (columns df)"
    and "''Oracle tool'' \<notin> set ts"
  shows "\<exists>df' orc'. oracle_loop ts df = Inr df' \<and> columns df' ''Oracle tool'' = Some orc'
           \<and> length orc' = length (index df) \<and> set orc' \<subseteq> good_states
           \<and> (\<forall>i < length (index df).
                 orc ! i = Tests_failed \<and> (\<forall>t \<in> set ts. row_at df i t = Some Tests_timedout)
                 \<longrightarrow> orc' ! i = Tests_failed)"
  using assms
proof (induction ts arbitrary: df orc)
  case Nil
  then show ?case by (auto simp: wf_df_def)
next
  case (Cons t ts)
  let ?n = "length (index df)"
  from Cons.prems obtain col where col: "columns df t = Some col" by auto
  from apply_oracle_row [OF Cons.prems(1,2) col Cons.prems(3)]
  obtain s where s: "apply_rows (oracle_row t) df = Inr s" "length s = ?n"
    "set s \<subseteq> good_states"
    "\<forall>i < ?n. merge_two_states (orc ! i) (col ! i) = Inr (s ! i)" by blast
  let ?df = "setitem df ''Oracle tool'' s"
  have wf': "wf_df ?df" using Cons.prems(1) s(2) by (auto simp: wf_df_def setitem_def)
  have o': "columns ?df ''Oracle tool'' = Some s" by (simp add: setitem_def)
  have dom': "\<forall>u \<in> set ts. u \<in> dom (columns ?df)"
    using Cons.prems(4) by (auto simp: setitem_def)
  have no': "''Oracle tool'' \<notin> set ts" using Cons.prems(5) by simp
  from Cons.IH [OF wf' o' s(3) dom' no']
  obtain df' orc' where r: "oracle_loop ts ?df = Inr df'"
    "columns df' ''Oracle tool'' = Some orc'" "length orc' = length (index ?df)"
    "set orc' \<subseteq> good_states"
    "\<forall>i < length (index ?df).
       s ! i = Tests_failed \<and> (\<forall>u \<in> set ts. row_at ?df i u = Some Tests_timedout)
       \<longrightarrow> orc' ! i = Tests_failed" by blast
  have idx: "index ?df = index df" by (simp add: setitem_def)
  have keep: "orc' ! i = Tests_failed"
    if i: "i < ?n" and f: "orc ! i = Tests_failed"
      and tt: "\<forall>u \<in> set (t # ts). row_at df i u = Some Tests_timedout" for i
  proof -
    from tt col have "col ! i = Tests_timedout" by (simp add: row_at_def)
    moreover from s(4) i have "merge_two_states (orc ! i) (col ! i) = Inr (s ! i)" by simp
    ultimately have si: "s ! i = Tests_failed" using f by (simp add: merge_failed_timedout)
    have "row_at ?df i u = Some Tests_timedout" if "u \<in> set ts" for u
    proof -
      from that Cons.prems(5) have "u \<noteq> ''Oracle tool''" by auto
      with tt that show ?thesis by (simp add: row_at_def setitem_def)
    qed
    with r(5) i si idx show ?thesis by simp
  qed
  from s(1) r(1-4) idx keep show ?case by auto
qed


text \<open>
  C2. On the four valid states the reconciliation is associative, and both groupings
  return a valid state (neither raises).
\<close>

theorem merge_two_states_assoc:
  assumes "a \<in> valid_states" and "b \<in> valid_states" and "c \<in> valid_states"
  shows "bind_err (merge_two_states a b) (\<lambda>x. merge_two_states x c)
           = bind_err (merge_two_states b c) (\<lambda>y. merge_two_states a y)
         \<and> (\<exists>r \<in> valid_states.
               bind_err (merge_two_states a b) (\<lambda>x. merge_two_states x c) = Inr r)"
proof -
  from assms have
    "a = Tests_passed \<or> a = Merge_failed \<or> a = Tests_failed \<or> a = Tests_timedout"
    "b = Tests_passed \<or> b = Merge_failed \<or> b = Tests_failed \<or> b = Tests_timedout"
    "c = Tests_passed \<or> c = Merge_failed \<or> c = Tests_failed \<or> c = Tests_timedout"
    by (simp_all add: valid_states_def)
  then show ?thesis
    by (elim disjE) (simp_all add: merge_two_states_table bind_err_def valid_states_def)
qed

theorem merge_two_states_assoc_witness:
  "Tests_timedout \<in> valid_states \<and> Tests_failed \<in> valid_states
   \<and> Merge_failed \<in> valid_states
   \<and> bind_err (merge_two_states Tests_timedout Tests_failed)
        (\<lambda>x. merge_two_states x Merge_failed)
      = bind_err (merge_two_states Tests_failed Merge_failed)
          (\<lambda>y. merge_two_states Tests_timedout y)
   \<and> (\<exists>r \<in> valid_states.
         bind_err (merge_two_states Tests_timedout Tests_failed)
           (\<lambda>x. merge_two_states x Merge_failed) = Inr r)"
proof -
  have v: "Tests_timedout \<in> valid_states" "Tests_failed \<in> valid_states"
    "Merge_failed \<in> valid_states"
    by (simp_all add: valid_states_def)
  from v merge_two_states_assoc [OF v] show ?thesis by blast
qed

text \<open>
  C10. On a table with at least one scenario and a column for every tool, the oracle
  column is folded from the seed "tests failed", so the fold never raises, the oracle
  outcome of a scenario is never "tests timed out", and a scenario in which every tool
  timed out gets "tests failed".
\<close>

theorem oracle_tool_never_timedout:
  assumes "wf_df df" and "index df \<noteq> []"
    and "\<forall>t \<in> set merge_tools. t \<in> dom (columns df)"
    and "''Oracle tool'' \<notin> set merge_tools"
  shows "\<exists>df' orc. oracle_tool merge_tools df = Inr df'
           \<and> columns df' ''Oracle tool'' = Some orc
           \<and> length orc = length (index df)
           \<and> Tests_timedout \<notin> set orc
           \<and> set orc \<subseteq> good_states
           \<and> (\<forall>i < length (index df).
                 (\<forall>t \<in> set merge_tools. row_at df i t = Some Tests_timedout)
                 \<longrightarrow> orc ! i = Tests_failed)"
proof -
  let ?n = "length (index df)"
  let ?df = "setitem_scalar df ''Oracle tool'' Tests_failed"
  let ?seed = "replicate ?n Tests_failed"
  have wf: "wf_df ?df" using assms(1) by (auto simp: wf_df_def setitem_scalar_def)
  have o: "columns ?df ''Oracle tool'' = Some ?seed" by (simp add: setitem_scalar_def)
  have g: "set ?seed \<subseteq> good_states" by (auto simp: good_states_def)
  have d: "\<forall>t \<in> set merge_tools. t \<in> dom (columns ?df)"
    using assms(3) by (auto simp: setitem_scalar_def)
  from oracle_loop_inv [OF wf o g d assms(4)]
  obtain df' orc where r: "oracle_loop merge_tools ?df = Inr df'"
    "columns df' ''Oracle tool'' = Some orc" "length orc = length (index ?df)"
    "set orc \<subseteq> good_states"
    "\<forall>i < length (index ?df).
       ?seed ! i = Tests_failed
       \<and> (\<forall>t \<in> set merge_tools. row_at ?df i t = Some Tests_timedout)
       \<longrightarrow> orc ! i = Tests_failed" by blast
  have idx: "index ?df = index df" by (simp add: setitem_scalar_def)
  have same: "row_at ?df i t = row_at df i t" if "t \<in> set merge_tools" for i t
  proof -
    from that assms(4) have "t \<noteq> ''Oracle tool''" by auto
    then show ?thesis by (simp add: row_at_def setitem_scalar_def)
  qed
  have tt: "Tests_timedout \<notin> set orc"
    using r(4) by (auto simp: good_states_def states_distinct)
  have all: "orc ! i = Tests_failed"
    if "i < ?n" and "\<forall>t \<in> set merge_tools. row_at df i t = Some Tests_timedout" for i
    using r(5) that idx same by simp
  from r(1-4) idx tt all show ?thesis by (auto simp: oracle_tool_def)
qed

theorem oracle_tool_never_timedout_witness:
  "wf_df example_df
   \<and> index example_df \<noteq> []
   \<and> ''gitmerge_ort'' \<in> dom (columns example_df)
   \<and> ''spork'' \<in> dom (columns example_df)
   \<and> ''Oracle tool'' \<notin> set [''gitmerge_ort'', ''spork'']
   \<and> row_at example_df 0 ''gitmerge_ort'' = Some Tests_timedout
   \<and> row_at example_df 0 ''spork'' = Some Tests_timedout
   \<and> (\<exists>df' orc. oracle_tool [''gitmerge_ort'', ''spork''] example_df = Inr df'
         \<and> columns df' ''Oracle tool'' = Some orc
         \<and> Tests_timedout \<notin> set orc
         \<and> orc ! 0 = Tests_failed)"
proof -
  have h1: "wf_df example_df"
    by (auto simp: wf_df_def example_df_def split: if_splits)
  have h2: "\<forall>t \<in> set [''gitmerge_ort'', ''spork'']. t \<in> dom (columns example_df)"
    by (simp add: example_df_def)
  have h3: "''Oracle tool'' \<notin> set [''gitmerge_ort'', ''spork'']" by simp
  have h4: "\<forall>t \<in> set [''gitmerge_ort'', ''spork'']. row_at example_df 0 t = Some Tests_timedout"
    by (simp add: example_df_def row_at_def)
  have h5: "0 < length (index example_df)" by (simp add: example_df_def)
  then have h6: "index example_df \<noteq> []" by auto
  from oracle_tool_never_timedout [OF h1 h6 h2 h3] h4 h5
  have "\<exists>df' orc. oracle_tool [''gitmerge_ort'', ''spork''] example_df = Inr df'
         \<and> columns df' ''Oracle tool'' = Some orc
         \<and> Tests_timedout \<notin> set orc
         \<and> orc ! 0 = Tests_failed"
    by blast
  with h1 h2 h3 h4 h6 show ?thesis by simp
qed

section \<open>Properties of the cost-tradeoff score\<close>

text \<open>
  C7. For non-negative counts with a positive total the score is a number for every cost
  factor, it does not increase when the cost factor grows, and with no incorrect merge
  it is the same for every cost factor.
\<close>

theorem effort_reduction_antimono:
  assumes "0 \<le> correct" and "0 \<le> unhandled" and "0 \<le> incorrect"
    and "0 < correct + incorrect + unhandled" and "k1 \<le> k2"
  shows "\<exists>s1 s2. effort_reduction unhandled incorrect correct k1 = Some s1
           \<and> effort_reduction unhandled incorrect correct k2 = Some s2
           \<and> s2 \<le> s1
           \<and> (incorrect = 0 \<longrightarrow> effort_reduction unhandled incorrect correct k3 = Some s1)"
proof -
  let ?t = "real_of_int (unhandled + incorrect + correct)"
  from assms have t: "0 < ?t" by simp
  from assms have "real_of_int incorrect * k1 \<le> real_of_int incorrect * k2"
    by (simp add: mult_left_mono)
  then have "(real_of_int unhandled * 1 + real_of_int incorrect * k1) / ?t
      \<le> (real_of_int unhandled * 1 + real_of_int incorrect * k2) / ?t"
    using t by (simp add: divide_right_mono)
  with t show ?thesis
    by (auto simp: effort_reduction_def Let_def)
qed

theorem effort_reduction_antimono_witness:
  "(0::int) \<le> 5 \<and> (0::int) \<le> 2 \<and> (0::int) \<le> 3 \<and> (0::int) < 5 + 3 + 2 \<and> (1::real) \<le> 2
   \<and> (\<exists>s1 s2. effort_reduction 2 3 5 1 = Some s1 \<and> effort_reduction 2 3 5 2 = Some s2
         \<and> s2 \<le> s1)
   \<and> (\<exists>s1. effort_reduction 2 0 5 1 = Some s1 \<and> effort_reduction 2 0 5 7 = Some s1)"
  using effort_reduction_antimono [of 5 2 3 1 2]
    effort_reduction_antimono [of 5 2 0 1 2 7]
  by auto

section \<open>Properties of the fingerprint consistency check\<close>

lemma list_eq_map_upt: "length xs = n \<Longrightarrow> xs = map (\<lambda>i. xs ! i) [0..<n]"
  by (auto intro: nth_equalityI)

lemma mask_sum_filter:
  assumes "length m = n" and "\<And>i. i < n \<Longrightarrow> m ! i = P i"
  shows "mask_sum m = length (filter P [0..<n])"
proof -
  from assms have "m = map P [0..<n]" by (auto intro: nth_equalityI)
  then show ?thesis by (simp add: mask_sum_def filter_map comp_def)
qed

lemma select_filter:
  assumes "length m = n" and "length xs = n" and "\<And>i. i < n \<Longrightarrow> m ! i = P i"
  shows "select m xs = map (\<lambda>i. xs ! i) (filter P [0..<n])"
proof -
  from assms have m: "m = map P [0..<n]" by (auto intro: nth_equalityI)
  from assms(2) have xs: "xs = map (\<lambda>i. xs ! i) [0..<n]" by (rule list_eq_map_upt)
  have "zip (map P [0..<n]) (map (\<lambda>i. xs ! i) [0..<n]) = map (\<lambda>i. (P i, xs ! i)) [0..<n]"
    by (simp add: zip_map_map zip_same_conv_map)
  then have "select (map P [0..<n]) (map (\<lambda>i. xs ! i) [0..<n])
      = map (\<lambda>i. xs ! i) (filter P [0..<n])"
    by (simp add: select_def filter_map comp_def)
  with m xs show ?thesis by metis
qed

lemma check_pair_skip:
  "t1 \<in> excluded_tools \<or> t2 \<in> excluded_tools \<or> t1 = t2 \<Longrightarrow> check_pair df t1 t2 = ([], Inr ())"
  by (auto simp: check_pair_def excluded_tools_def)

lemma check_pair_active:
  assumes wf: "wf_df df" and c1: "has_columns df t1" and c2: "has_columns df t2"
    and act: "t1 \<notin> excluded_tools" "t2 \<notin> excluded_tools" "t1 \<noteq> t2"
  shows "check_pair df t1 t2 =
           (if offending_rows df t1 t2 = [] then ([], Inr ()) else failure df t1 t2)"
proof -
  let ?n = "length (index df)"
  from c1 c2 obtain fp1 fp2 res1 res2 where cols:
    "columns df (t1 @ ''_merge_fingerprint'') = Some fp1"
    "columns df (t2 @ ''_merge_fingerprint'') = Some fp2"
    "columns df t1 = Some res1" "columns df t2 = Some res2"
    by (auto simp: has_columns_def)
  with wf have len: "length fp1 = ?n" "length fp2 = ?n" "length res1 = ?n" "length res2 = ?n"
    by (auto simp: wf_df_def)
  let ?m = "mask_and (series_eq fp1 fp2) (mask_not (series_eq res1 res2))"
  have lm: "length ?m = ?n" using len by (simp add: mask_and_def mask_not_def series_eq_def)
  have nth: "?m ! i = inconsistent_row df t1 t2 i" if "i < ?n" for i
    using that len cols
    by (simp add: mask_and_def mask_not_def series_eq_def inconsistent_row_def row_at_def)
  have sum: "mask_sum ?m = length (offending_rows df t1 t2)"
    unfolding offending_rows_def by (rule mask_sum_filter [OF lm nth])
  let ?xs = "zip (index df) (zip res1 (zip res2 fp1))"
  have lx: "length ?xs = ?n" using len by simp
  have "select ?m ?xs = map (\<lambda>i. ?xs ! i) (offending_rows df t1 t2)"
    unfolding offending_rows_def by (rule select_filter [OF lm lx nth])
  also have "\<dots> = map (logged_row df t1 t2) (offending_rows df t1 t2)"
    using len cols by (auto simp: offending_rows_def logged_row_def row_at_def)
  finally have sel: "select ?m ?xs = map (logged_row df t1 t2) (offending_rows df t1 t2)" .
  from act have guards: "t1 \<noteq> ''gitmerge_resolve''" "t2 \<noteq> ''gitmerge_resolve''"
    "t1 \<noteq> ''gitmerge_ort_adjacent''" "t2 \<noteq> ''gitmerge_ort_adjacent''"
    "t1 \<noteq> ''gitmerge_ort_imports''" "t2 \<noteq> ''gitmerge_ort_imports''"
    "t1 \<noteq> ''gitmerge_ort_imports_ignorespace''" "t2 \<noteq> ''gitmerge_ort_imports_ignorespace''"
    by (auto simp: excluded_tools_def)
  show ?thesis
    unfolding check_pair_def
    by (simp only: guards act(3) cols df_getitem_def option.case sum.case Let_def sum sel
        failure_def if_False if_True HOL.simp_thms length_greater_0_conv
        length_0_conv split: if_splits)
      auto
qed

lemma check_pair_bad:
  assumes "wf_df df" and "t1 \<notin> excluded_tools \<longrightarrow> has_columns df t1"
    and "t2 \<notin> excluded_tools \<longrightarrow> has_columns df t2"
  shows "check_pair df t1 t2 = (if bad_pair df t1 t2 then failure df t1 t2 else ([], Inr ()))"
proof (cases "t1 \<in> excluded_tools \<or> t2 \<in> excluded_tools \<or> t1 = t2")
  case True
  then show ?thesis by (auto simp: check_pair_skip bad_pair_def)
next
  case False
  with assms check_pair_active [of df t1 t2] show ?thesis by (auto simp: bad_pair_def)
qed

lemma inner_loop_find:
  assumes "wf_df df" and "t1 \<notin> excluded_tools \<longrightarrow> has_columns df t1"
    and "\<forall>t \<in> set ts. t \<notin> excluded_tools \<longrightarrow> has_columns df t"
  shows "inner_loop df t1 ts =
           (case find (bad_pair df t1) ts of None \<Rightarrow> ([], Inr ()) | Some t2 \<Rightarrow> failure df t1 t2)"
  using assms(3)
proof (induction ts)
  case Nil
  then show ?case by simp
next
  case (Cons t2 ts)
  from Cons.prems have "t2 \<notin> excluded_tools \<longrightarrow> has_columns df t2" by simp
  from check_pair_bad [OF assms(1,2) this] Cons show ?case
    by (auto simp: failure_def split: option.splits)
qed

lemma outer_loop_find:
  assumes "wf_df df" and "\<forall>t \<in> set all. t \<notin> excluded_tools \<longrightarrow> has_columns df t"
    and "set ts \<subseteq> set all"
  shows "outer_loop df all ts =
           (case find (\<lambda>t1. \<exists>t2 \<in> set all. bad_pair df t1 t2) ts of
              None \<Rightarrow> ([], Inr ())
            | Some t1 \<Rightarrow> failure df t1 (the (find (bad_pair df t1) all)))"
  using assms(3)
proof (induction ts)
  case Nil
  then show ?case by simp
next
  case (Cons t1 ts)
  from Cons.prems assms(2) have "t1 \<notin> excluded_tools \<longrightarrow> has_columns df t1" by auto
  note inner = inner_loop_find [OF assms(1) this assms(2)]
  show ?case
  proof (cases "find (bad_pair df t1) all")
    case None
    then have "\<not> (\<exists>t2 \<in> set all. bad_pair df t1 t2)" by (simp add: find_None_iff)
    with None inner Cons show ?thesis by simp
  next
    case (Some t2)
    then have "\<exists>t2 \<in> set all. bad_pair df t1 t2" by (auto simp: find_Some_iff)
    with Some inner show ?thesis by (simp add: failure_def)
  qed
qed


lemma offending_rows_empty:
  "offending_rows df t1 t2 \<noteq> [] \<longleftrightarrow> (\<exists>i < length (index df). inconsistent_row df t1 t2 i)"
  by (auto simp: offending_rows_def filter_empty_conv)

text \<open>
  C8 (amended). The check skips every pair with a tool among \<open>gitmerge_resolve\<close>,
  \<open>gitmerge_ort_adjacent\<close>, \<open>gitmerge_ort_imports\<close> and
  \<open>gitmerge_ort_imports_ignorespace\<close>. If for some pair of distinct tools outside these
  four a row has equal fingerprints and different outcomes, the check logs the message
  and the offending rows of such a pair and raises the assertion error for it; if there
  is no such pair and row it logs nothing and returns normally.
\<close>

theorem check_fingerprint_consistency_fails_iff:
  assumes "wf_df df"
    and "\<forall>t \<in> set merge_tools. t \<notin> excluded_tools \<longrightarrow> has_columns df t"
  shows "if (\<exists>t1 \<in> set merge_tools. \<exists>t2 \<in> set merge_tools.
               t1 \<notin> excluded_tools \<and> t2 \<notin> excluded_tools \<and> t1 \<noteq> t2
               \<and> (\<exists>i < length (index df). inconsistent_row df t1 t2 i))
         then (\<exists>t1 \<in> set merge_tools. \<exists>t2 \<in> set merge_tools.
                 t1 \<notin> excluded_tools \<and> t2 \<notin> excluded_tools \<and> t1 \<noteq> t2
                 \<and> offending_rows df t1 t2 \<noteq> []
                 \<and> check_fingerprint_consistency df merge_tools =
                     ([LogInconsistency t1 t2 (length (offending_rows df t1 t2)),
                       LogRows (map (logged_row df t1 t2) (offending_rows df t1 t2))],
                      Inl (AssertionError t1 t2 (length (offending_rows df t1 t2)))))
         else check_fingerprint_consistency df merge_tools = ([], Inr ())"
proof -
  let ?first = "find (\<lambda>t1. \<exists>t2 \<in> set merge_tools. bad_pair df t1 t2) merge_tools"
  have run: "check_fingerprint_consistency df merge_tools =
      (case ?first of
         None \<Rightarrow> ([], Inr ())
       | Some t1 \<Rightarrow> failure df t1 (the (find (bad_pair df t1) merge_tools)))"
    unfolding check_fingerprint_consistency_def
    by (rule outer_loop_find [OF assms]) simp
  show ?thesis
  proof (cases ?first)
    case None
    then have "\<not> (\<exists>t1 \<in> set merge_tools. \<exists>t2 \<in> set merge_tools. bad_pair df t1 t2)"
      by (simp add: find_None_iff)
    then have "\<not> (\<exists>t1 \<in> set merge_tools. \<exists>t2 \<in> set merge_tools.
               t1 \<notin> excluded_tools \<and> t2 \<notin> excluded_tools \<and> t1 \<noteq> t2
               \<and> (\<exists>i < length (index df). inconsistent_row df t1 t2 i))"
      by (simp add: bad_pair_def offending_rows_empty)
    with None run show ?thesis by simp
  next
    case (Some t1)
    then have t1: "t1 \<in> set merge_tools" "\<exists>t2 \<in> set merge_tools. bad_pair df t1 t2"
      by (auto simp: find_Some_iff)
    then obtain t2 where t2: "find (bad_pair df t1) merge_tools = Some t2"
      by (cases "find (bad_pair df t1) merge_tools") (auto simp: find_None_iff)
    then have b: "t2 \<in> set merge_tools" "bad_pair df t1 t2"
      by (auto simp: find_Some_iff)
    from run Some t2 have res: "check_fingerprint_consistency df merge_tools = failure df t1 t2"
      by simp
    from b(2) have parts: "t1 \<notin> excluded_tools" "t2 \<notin> excluded_tools" "t1 \<noteq> t2"
      "offending_rows df t1 t2 \<noteq> []"
      by (simp_all add: bad_pair_def)
    from parts(4) have row: "\<exists>i < length (index df). inconsistent_row df t1 t2 i"
      by (simp add: offending_rows_empty)
    have cond: "\<exists>t1 \<in> set merge_tools. \<exists>t2 \<in> set merge_tools.
               t1 \<notin> excluded_tools \<and> t2 \<notin> excluded_tools \<and> t1 \<noteq> t2
               \<and> (\<exists>i < length (index df). inconsistent_row df t1 t2 i)"
      using t1(1) b(1) parts(1-3) row by blast
    have concl: "\<exists>t1 \<in> set merge_tools. \<exists>t2 \<in> set merge_tools.
                 t1 \<notin> excluded_tools \<and> t2 \<notin> excluded_tools \<and> t1 \<noteq> t2
                 \<and> offending_rows df t1 t2 \<noteq> []
                 \<and> check_fingerprint_consistency df merge_tools =
                     ([LogInconsistency t1 t2 (length (offending_rows df t1 t2)),
                       LogRows (map (logged_row df t1 t2) (offending_rows df t1 t2))],
                      Inl (AssertionError t1 t2 (length (offending_rows df t1 t2))))"
      using t1(1) b(1) parts res unfolding failure_def by blast
    from cond concl show ?thesis by simp
  qed
qed

lemma spork_df_wf: "wf_df spork_df"
  by (auto simp: wf_df_def spork_df_def split: if_splits)

lemma spork_df_columns:
  "has_columns spork_df ''spork''" "has_columns spork_df ''gitmerge_ort''"
  by (simp_all add: has_columns_def spork_df_def)

lemma spork_df_row: "inconsistent_row spork_df ''spork'' ''gitmerge_ort'' 1"
  by (simp add: inconsistent_row_def spork_df_def row_at_def state_defs)

theorem check_fingerprint_consistency_fails_iff_witness:
  "wf_df spork_df
   \<and> has_columns spork_df ''spork'' \<and> has_columns spork_df ''gitmerge_ort''
   \<and> inconsistent_row spork_df ''spork'' ''gitmerge_ort'' 1
   \<and> (\<exists>t1 \<in> set [''spork'', ''gitmerge_ort'']. \<exists>t2 \<in> set [''spork'', ''gitmerge_ort''].
         check_fingerprint_consistency spork_df [''spork'', ''gitmerge_ort''] =
           ([LogInconsistency t1 t2 (length (offending_rows spork_df t1 t2)),
             LogRows (map (logged_row spork_df t1 t2) (offending_rows spork_df t1 t2))],
            Inl (AssertionError t1 t2 (length (offending_rows spork_df t1 t2)))))
   \<and> check_fingerprint_consistency spork_df [''gitmerge_ort''] = ([], Inr ())"
proof -
  have cols: "\<forall>t \<in> set [''spork'', ''gitmerge_ort'']. t \<notin> excluded_tools \<longrightarrow> has_columns spork_df t"
    using spork_df_columns by simp
  have cols1: "\<forall>t \<in> set [''gitmerge_ort'']. t \<notin> excluded_tools \<longrightarrow> has_columns spork_df t"
    using spork_df_columns by simp
  have ex: "''spork'' \<notin> excluded_tools" "''gitmerge_ort'' \<notin> excluded_tools"
    by (simp_all add: excluded_tools_def)
  have len: "1 < length (index spork_df)" by (simp add: spork_df_def)
  have cond: "\<exists>t1 \<in> set [''spork'', ''gitmerge_ort'']. \<exists>t2 \<in> set [''spork'', ''gitmerge_ort''].
               t1 \<notin> excluded_tools \<and> t2 \<notin> excluded_tools \<and> t1 \<noteq> t2
               \<and> (\<exists>i < length (index spork_df). inconsistent_row spork_df t1 t2 i)"
    using ex len spork_df_row by auto
  have fails: "\<exists>t1 \<in> set [''spork'', ''gitmerge_ort'']. \<exists>t2 \<in> set [''spork'', ''gitmerge_ort''].
         check_fingerprint_consistency spork_df [''spork'', ''gitmerge_ort''] =
           ([LogInconsistency t1 t2 (length (offending_rows spork_df t1 t2)),
             LogRows (map (logged_row spork_df t1 t2) (offending_rows spork_df t1 t2))],
            Inl (AssertionError t1 t2 (length (offending_rows spork_df t1 t2))))"
    using check_fingerprint_consistency_fails_iff [OF spork_df_wf cols] cond
    by (simp only: if_True) blast
  have passes: "check_fingerprint_consistency spork_df [''gitmerge_ort''] = ([], Inr ())"
    using check_fingerprint_consistency_fails_iff [OF spork_df_wf cols1] by simp
  from spork_df_wf spork_df_columns spork_df_row fails passes show ?thesis by blast
qed

text \<open>
  C8 as stated fails: \<open>gitmerge_resolve\<close> is neither an adjacency-based nor an
  import-reordering variant, it differs from \<open>gitmerge_ort\<close>, the only row has equal
  fingerprints and different outcomes for the two, and the check logs nothing and
  returns normally.
\<close>

theorem check_fingerprint_consistency_resolve_counterexample:
  "''gitmerge_resolve'' \<notin> documented_exclusions
   \<and> ''gitmerge_ort'' \<notin> documented_exclusions
   \<and> ''gitmerge_resolve'' \<noteq> ''gitmerge_ort''
   \<and> inconsistent_row resolve_df ''gitmerge_resolve'' ''gitmerge_ort'' 0
   \<and> check_fingerprint_consistency resolve_df [''gitmerge_resolve'', ''gitmerge_ort'']
       = ([], Inr ())"
  by (simp add: documented_exclusions_def inconsistent_row_def resolve_df_def row_at_def
      state_defs check_fingerprint_consistency_def check_pair_def)

section \<open>Properties of the conflict extraction\<close>

lemma try_lengths_hit:
  "k (Suc n) = Some r \<Longrightarrow> try_lengths (Suc n) k = Some r"
  by simp

lemma try_lengths_skip:
  "n \<le> m \<Longrightarrow> (\<And>j. n < j \<Longrightarrow> j \<le> m \<Longrightarrow> k j = None) \<Longrightarrow> try_lengths m k = try_lengths n k"
proof (induction m)
  case 0
  then show ?case by simp
next
  case (Suc m)
  show ?case
  proof (cases "n = Suc m")
    case True
    then show ?thesis by simp
  next
    case False
    with Suc.prems have le: "n \<le> m" by simp
    from Suc.prems False have "k (Suc m) = None" by simp
    moreover from Suc.IH [OF le] Suc.prems(2) have "try_lengths m k = try_lengths n k" by simp
    ultimately show ?thesis by simp
  qed
qed

lemma dot_run_line:
  assumes "newline \<notin> set xs" and "tail = [] \<or> hd tail = newline"
  shows "dot_run (xs @ tail) = length xs"
proof -
  from assms(1) have "takeWhile (\<lambda>c. c \<noteq> newline) (xs @ tail) = xs @ takeWhile (\<lambda>c. c \<noteq> newline) tail"
    by (intro takeWhile_append2) auto
  moreover from assms(2) have "takeWhile (\<lambda>c. c \<noteq> newline) tail = []"
    by (cases tail) auto
  ultimately show ?thesis by (simp add: dot_run_def)
qed

lemma group_dot_plus_line:
  assumes "path \<noteq> []" and "newline \<notin> set path" and "tail = [] \<or> hd tail = newline"
  shows "group_dot_plus (\<lambda>g rest. Some (g, rest)) (path @ tail) = Some (path, tail)"
proof -
  from assms(1) obtain n where n: "length path = Suc n" by (cases path) auto
  from dot_run_line [OF assms(2,3)] n show ?thesis
    by (simp add: group_dot_plus_def)
qed

lemma sublist_Cons_append:
  "sublist (x # xs) (as @ bs) \<Longrightarrow> x \<in> set as \<or> sublist (x # xs) bs"
  by (induction as) (auto simp: sublist_Cons_right)

text \<open>
  A literal without newline that is a prefix of the text from some position inside a
  line lies within the line.
\<close>

lemma prefix_within_line:
  assumes "prefix p (u @ tail)" and "newline \<notin> set p" and "tail = [] \<or> hd tail = newline"
  shows "prefix p u"
proof -
  from assms(1) have "prefix p u \<or> (\<exists>us. p = u @ us \<and> prefix us tail)"
    by (simp add: prefix_append)
  then show ?thesis
  proof
    assume "prefix p u"
    then show ?thesis .
  next
    assume "\<exists>us. p = u @ us \<and> prefix us tail"
    then obtain us where us: "p = u @ us" "prefix us tail" by blast
    show ?thesis
    proof (cases us)
      case Nil
      with us(1) show ?thesis by simp
    next
      case (Cons c cs)
      with us(2) assms(3) have "c = newline" by (cases tail) auto
      with Cons us(1) assms(2) show ?thesis by simp
    qed
  qed
qed

lemma prefix_drop_sublist: "prefix p (drop n u) \<Longrightarrow> sublist p u"
proof -
  assume "prefix p (drop n u)"
  then obtain zs where "drop n u = p @ zs" by (auto elim: prefixE)
  then have "u = take n u @ p @ zs" by (metis append_take_drop_id)
  then show ?thesis unfolding sublist_def by blast
qed

lemma separator_props:
  "newline \<notin> set separator" "CHR '')'' \<notin> set (tl separator)" "hd separator = CHR '')''"
  "separator \<noteq> []" "length separator = 21"
  by (simp_all add: separator_def newline_def)

lemma no_separator_after:
  assumes "\<not> sublist separator path" and "newline \<notin> set path"
    and "tail = [] \<or> hd tail = newline" and "0 < d" and "d \<le> length separator + length path"
  shows "\<not> prefix separator (drop d (separator @ path @ tail))"
proof
  assume p: "prefix separator (drop d (separator @ path @ tail))"
  let ?y = "tl separator @ path"
  from assms(4) obtain d' where d: "d = Suc d'" by (cases d) auto
  have "separator @ path @ tail = hd separator # (?y @ tail)"
    using separator_props(4) by (cases separator) auto
  with p d have "prefix separator (drop d' (?y @ tail))" by simp
  moreover from d assms(5) separator_props(4) have "d' \<le> length ?y" by (cases separator) auto
  ultimately have "prefix separator (drop d' ?y @ tail)" by simp
  then have "prefix separator (drop d' ?y)"
    using prefix_within_line separator_props(1) assms(3) by blast
  then have "sublist separator ?y" by (rule prefix_drop_sublist)
  then have "hd separator \<in> set (tl separator) \<or> sublist separator path"
    using sublist_Cons_append [of "hd separator" "tl separator" "tl separator" path]
      separator_props(4) by (cases separator) auto
  with assms(1) separator_props(2,3) show False by simp
qed

lemma conflict_re_line:
  assumes "kind \<noteq> []" and "path \<noteq> []" and "newline \<notin> set kind" and "newline \<notin> set path"
    and "\<not> sublist separator path" and "tail = [] \<or> hd tail = newline"
  shows "conflict_re (''CONFLICT ('' @ kind @ separator @ path @ tail) = Some (path, tail)"
proof -
  let ?k = "lit separator (group_dot_plus (\<lambda>g rest. Some (g, rest)))"
  let ?r = "kind @ separator @ path @ tail"
  let ?f = "\<lambda>n. ?k (drop n ?r)"
  have run: "dot_run ?r = length kind + (length separator + length path)"
    using dot_run_line [of "kind @ separator @ path" tail] assms(3,4,6) separator_props(1)
    by simp
  have none: "?f j = None"
    if "length kind < j" and "j \<le> length kind + (length separator + length path)" for j
  proof -
    from that have "drop j ?r = drop (j - length kind) (separator @ path @ tail)" by simp
    moreover from that have "\<not> prefix separator (drop (j - length kind) (separator @ path @ tail))"
      by (intro no_separator_after assms) auto
    ultimately show ?thesis by (simp add: lit_def)
  qed
  from assms(1) obtain n where n: "length kind = Suc n" by (cases kind) auto
  have hit: "?f (length kind) = Some (path, tail)"
    using group_dot_plus_line [OF assms(2,4,6)] by (simp add: lit_def)
  have "try_lengths (dot_run ?r) ?f = try_lengths (length kind) ?f"
    unfolding run by (rule try_lengths_skip) (use none in auto)
  also have "\<dots> = Some (path, tail)"
    unfolding n using hit [unfolded n] by (rule try_lengths_hit)
  finally have "dot_plus ?k ?r = Some (path, tail)" by (simp add: dot_plus_def)
  then show ?thesis
    by (simp add: conflict_re_def lit_def separator_def)
qed

lemma conflict_re_no_prefix:
  "\<not> prefix ''CONFLICT ('' s \<Longrightarrow> conflict_re s = None"
  by (simp add: conflict_re_def lit_def)

lemma findall_from_skip: "findall_from (length xs) (xs @ ys) = findall_from 0 ys"
  by (induction xs) simp_all

lemma findall_from_newline: "findall_from 0 (newline # r) = findall_from 0 r"
  by (simp add: conflict_re_no_prefix newline_def)

lemma findall_from_other_gen:
  assumes p: "p = ''CONFLICT (''" and t: "\<not> sublist p t"
    and tail: "tail = [] \<or> hd tail = newline"
  shows "findall_from 0 (t @ tail) = findall_from 0 tail"
  using t
proof (induction t)
  case Nil
  then show ?case by simp
next
  case (Cons c cs)
  have np: "newline \<notin> set p" unfolding p by (simp add: newline_def)
  have "\<not> prefix p ((c # cs) @ tail)"
  proof
    assume "prefix p ((c # cs) @ tail)"
    from prefix_within_line [OF this np tail] have "prefix p (c # cs)" .
    then have "sublist p (c # cs)" by (rule prefix_imp_sublist)
    with Cons.prems show False by simp
  qed
  then have "conflict_re ((c # cs) @ tail) = None"
    unfolding p by (rule conflict_re_no_prefix)
  then have step: "findall_from 0 ((c # cs) @ tail) = findall_from 0 (cs @ tail)" by simp
  have "p \<noteq> []" unfolding p by simp
  with Cons.prems have "\<not> sublist p cs"
    by (cases p) (auto simp: sublist_Cons_right)
  with step Cons.IH show ?case by simp
qed

lemma findall_from_other:
  assumes "\<not> sublist ''CONFLICT ('' t" and "tail = [] \<or> hd tail = newline"
  shows "findall_from 0 (t @ tail) = findall_from 0 tail"
  using findall_from_other_gen [OF refl assms] .

lemma findall_no_conflict:
  "\<not> sublist ''CONFLICT ('' s \<Longrightarrow> findall s = []"
  using findall_from_other [of s "[]"] by (simp add: findall_def)

lemma findall_from_match:
  assumes "conflict_re (x # xs @ rest) = Some (g, rest)"
  shows "findall_from 0 (x # xs @ rest) = g # findall_from 0 rest"
proof -
  from assms have "findall_from 0 (x # xs @ rest)
      = g # findall_from (length (xs @ rest) - length rest) (xs @ rest)"
    by simp
  also have "length (xs @ rest) - length rest = length xs" by simp
  finally show ?thesis by (simp only: findall_from_skip)
qed

lemma findall_from_conflict:
  assumes "wf_line (Conflict kind path)"
  shows "findall_from 0 (render_line (Conflict kind path) @ newline # r) = path # findall_from 0 r"
proof -
  let ?xs = "''ONFLICT ('' @ kind @ separator @ path"
  from assms have "conflict_re (''CONFLICT ('' @ kind @ separator @ path @ newline # r)
      = Some (path, newline # r)"
    using conflict_re_line [of kind path "newline # r"] by simp
  then have "conflict_re (CHR ''C'' # ?xs @ newline # r) = Some (path, newline # r)" by simp
  then have "findall_from 0 (CHR ''C'' # ?xs @ newline # r) = path # findall_from 0 (newline # r)"
    by (rule findall_from_match)
  then have "findall_from 0 (render_line (Conflict kind path) @ newline # r)
      = path # findall_from 0 (newline # r)"
    by simp
  then show ?thesis by (simp only: findall_from_newline)
qed

lemma findall_render_lines: "\<forall>l \<in> set ls. wf_line l \<Longrightarrow> findall (render ls) = conflict_paths ls"
proof (induction ls)
  case Nil
  then show ?case by (simp add: findall_def render_def)
next
  case (Cons l ls)
  then have ih: "findall_from 0 (render ls) = conflict_paths ls" by (simp add: findall_def)
  show ?case
  proof (cases l)
    case (Conflict kind path)
    with Cons.prems have "wf_line (Conflict kind path)" by simp
    from findall_from_conflict [OF this, of "render ls"] ih Conflict show ?thesis
      by (simp add: findall_def render_def)
  next
    case (Other t)
    with Cons.prems have "\<not> sublist ''CONFLICT ('' t" by simp
    then have "findall_from 0 (t @ newline # render ls) = findall_from 0 (newline # render ls)"
      by (rule findall_from_other) simp
    also have "\<dots> = findall_from 0 (render ls)" by (rule findall_from_newline)
    finally show ?thesis using ih Other by (simp add: findall_def render_def)
  qed
qed


lemma try_lengths_map_option:
  "(\<And>n. 0 < n \<Longrightarrow> n \<le> m \<Longrightarrow> f n = map_option h (g n)) \<Longrightarrow>
     try_lengths m f = map_option h (try_lengths m g)"
proof (induction m)
  case 0
  then show ?case by simp
next
  case (Suc m)
  then have "f (Suc m) = map_option h (g (Suc m))" and "try_lengths m f = map_option h (try_lengths m g)"
    by simp_all
  then show ?case by (cases "g (Suc m)") simp_all
qed

lemma line_local_group:
  assumes "hd tail = newline" and "tail \<noteq> []"
  shows "line_local tail (group_dot_plus (\<lambda>g rest. Some (g, rest)))"
  unfolding line_local_def
proof (intro allI impI)
  fix x assume x: "newline \<notin> set x"
  from assms have t: "tail = [] \<or> hd tail = newline" by simp
  show "group_dot_plus (\<lambda>g rest. Some (g, rest)) (x @ tail)
      = map_option (\<lambda>(g, rest). (g, rest @ tail)) (group_dot_plus (\<lambda>g rest. Some (g, rest)) x)"
  proof (cases x)
    case Nil
    with assms show ?thesis
      by (cases tail) (simp_all add: group_dot_plus_def dot_run_def)
  next
    case (Cons c cs)
    then have ne: "x \<noteq> []" by simp
    from group_dot_plus_line [OF ne x t] group_dot_plus_line [OF ne x, of "[]"]
    show ?thesis by simp
  qed
qed

lemma line_local_lit:
  assumes "line_local tail k" and "newline \<notin> set p" and "hd tail = newline"
  shows "line_local tail (lit p k)"
  unfolding line_local_def
proof (intro allI impI)
  fix x assume x: "newline \<notin> set x"
  show "lit p k (x @ tail) = map_option (\<lambda>(g, rest). (g, rest @ tail)) (lit p k x)"
  proof (cases "prefix p x")
    case True
    then have "prefix p (x @ tail)" by (rule prefix_prefix)
    moreover from True have "drop (length p) (x @ tail) = drop (length p) x @ tail"
      by (simp add: prefix_length_le)
    moreover from x have "newline \<notin> set (drop (length p) x)" by (auto dest: in_set_dropD)
    ultimately show ?thesis using True assms(1) by (simp add: lit_def line_local_def)
  next
    case False
    have "\<not> prefix p (x @ tail)"
      using prefix_within_line [of p x tail] assms(2,3) False by blast
    with False show ?thesis by (simp add: lit_def)
  qed
qed

lemma line_local_dot_plus:
  assumes "line_local tail k" and "hd tail = newline"
  shows "line_local tail (dot_plus k)"
  unfolding line_local_def
proof (intro allI impI)
  fix x assume x: "newline \<notin> set x"
  from assms(2) have run: "dot_run (x @ tail) = length x" "dot_run x = length x"
    using dot_run_line [OF x, of tail] dot_run_line [OF x, of "[]"] by simp_all
  have "k (drop n (x @ tail)) = map_option (\<lambda>(g, rest). (g, rest @ tail)) (k (drop n x))"
    if "n \<le> length x" for n
  proof -
    from x have "newline \<notin> set (drop n x)" by (auto dest: in_set_dropD)
    with that assms(1) show ?thesis by (simp add: line_local_def)
  qed
  then show "dot_plus k (x @ tail) = map_option (\<lambda>(g, rest). (g, rest @ tail)) (dot_plus k x)"
    unfolding dot_plus_def run by (intro try_lengths_map_option) simp
qed

lemma conflict_re_line_local: "line_local (newline # r) conflict_re"
  unfolding conflict_re_def
  by (intro line_local_lit line_local_dot_plus line_local_group)
     (simp_all add: newline_def)

lemma findall_from_line:
  assumes "newline \<notin> set l"
  shows "findall_from k (l @ newline # r)
           = findall_from k l @ findall_from (k - length l) (newline # r)"
  using assms
proof (induction l arbitrary: k)
  case Nil
  then show ?case by simp
next
  case (Cons c cs)
  show ?case
  proof (cases k)
    case (Suc k')
    with Cons show ?thesis by simp
  next
    case 0
    from Cons.prems conflict_re_line_local [of r]
    have m: "conflict_re ((c # cs) @ newline # r)
        = map_option (\<lambda>(g, rest). (g, rest @ newline # r)) (conflict_re (c # cs))"
      unfolding line_local_def by blast
    show ?thesis
    proof (cases "conflict_re (c # cs)")
      case None
      with m 0 Cons show ?thesis by simp
    next
      case (Some a)
      obtain g rest where a: "a = (g, rest)" by (cases a)
      let ?j = "length cs - length rest"
      from Cons have "findall_from ?j (cs @ newline # r)
          = findall_from ?j cs @ findall_from (?j - length cs) (newline # r)" by simp
      moreover have "?j - length cs = 0" by simp
      ultimately have "findall_from ?j (cs @ newline # r)
          = findall_from ?j cs @ findall_from 0 (newline # r)" by simp
      with m 0 Some a show ?thesis by simp
    qed
  qed
qed

lemma findall_line:
  assumes "newline \<notin> set l"
  shows "findall (l @ newline # r) = findall l @ findall r"
proof -
  have "findall_from 0 (l @ newline # r) = findall_from 0 l @ findall_from (0 - length l) (newline # r)"
    using assms by (rule findall_from_line)
  also have "findall_from (0 - length l) (newline # r) = findall_from 0 r"
    by (simp only: diff_0_eq_0 findall_from_newline)
  finally show ?thesis by (simp only: findall_def)
qed

lemma findall_lines:
  assumes "\<forall>l \<in> set ls. newline \<notin> set l"
  shows "findall (concat (map (\<lambda>l. l @ [newline]) ls) @ l_last)
           = concat (map findall ls) @ findall l_last"
  using assms by (induction ls) (simp_all add: findall_line)


lemma try_lengths_Some:
  "try_lengths m f = Some r \<Longrightarrow> \<exists>n. 0 < n \<and> n \<le> m \<and> f n = Some r"
proof (induction m)
  case 0
  then show ?case by simp
next
  case (Suc m)
  then show ?case
    by (cases "f (Suc m)") (auto intro: le_SucI)
qed

lemma lit_Some:
  assumes "lit p k s = Some r"
  shows "\<exists>v. set v \<subseteq> set s \<and> k v = Some r"
proof -
  from assms have "k (drop (length p) s) = Some r"
    by (simp add: lit_def split: if_splits)
  moreover have "set (drop (length p) s) \<subseteq> set s" by (rule set_drop_subset)
  ultimately show ?thesis by blast
qed

lemma dot_plus_Some:
  assumes "dot_plus k s = Some r"
  shows "\<exists>v. set v \<subseteq> set s \<and> k v = Some r"
proof -
  from assms obtain n where "k (drop n s) = Some r"
    unfolding dot_plus_def by (blast dest: try_lengths_Some)
  moreover have "set (drop n s) \<subseteq> set s" by (rule set_drop_subset)
  ultimately show ?thesis by blast
qed

lemma conflict_re_rest:
  assumes "conflict_re u = Some (g, rest)" and "newline \<notin> set u"
  shows "rest = [] \<and> g \<noteq> []"
proof -
  let ?g = "group_dot_plus (\<lambda>g rest. Some (g, rest))"
  from assms(1) obtain v1 where v1: "set v1 \<subseteq> set u"
    "dot_plus (lit ''): Merge conflict in '' ?g) v1 = Some (g, rest)"
    unfolding conflict_re_def by (blast dest: lit_Some)
  from v1(2) obtain v2 where v2: "set v2 \<subseteq> set v1" "lit ''): Merge conflict in '' ?g v2 = Some (g, rest)"
    by (blast dest: dot_plus_Some)
  from v2(2) obtain v where v: "set v \<subseteq> set v2" "?g v = Some (g, rest)"
    by (blast dest: lit_Some)
  from v(1) v2(1) v1(1) assms(2) have nv: "newline \<notin> set v" by blast
  show ?thesis
  proof (cases "v = []")
    case True
    with v(2) show ?thesis by (simp add: group_dot_plus_def dot_run_def)
  next
    case False
    from group_dot_plus_line [OF False nv, of "[]"] v(2) False show ?thesis by simp
  qed
qed

lemma findall_from_line_length:
  "newline \<notin> set l \<Longrightarrow> length (findall_from 0 l) \<le> 1"
proof (induction l)
  case Nil
  then show ?case by simp
next
  case (Cons c cs)
  show ?case
  proof (cases "conflict_re (c # cs)")
    case None
    with Cons show ?thesis by simp
  next
    case (Some a)
    obtain g rest where a: "a = (g, rest)" by (cases a)
    with Some Cons.prems conflict_re_rest [of "c # cs" g rest] have "rest = []" by simp
    with Some a have "findall_from 0 (c # cs) = g # findall_from (length cs) (cs @ [])" by simp
    also have "\<dots> = [g]" by (simp only: findall_from_skip findall_from.simps)
    finally show ?thesis by simp
  qed
qed


text \<open>
  C5. Every console output is a sequence of lines ended by a newline, followed by a last
  line without one. The extraction of the whole output is the extraction of each line,
  in the order of the lines and with nothing removed, and a line yields at most one
  path. For well-formed lines the extraction returns the path of every conflict line, in
  order and with repeated paths kept. On the two conflict lines for \<open>src/A.txt\<close> and
  \<open>src/B.txt\<close> it returns these two paths in that order.
\<close>

theorem conflict_extraction:
  "((\<forall>l \<in> set ls. newline \<notin> set l) \<and> newline \<notin> set l_last \<longrightarrow>
      findall (concat (map (\<lambda>l. l @ [newline]) ls) @ l_last)
        = concat (map findall ls) @ findall l_last
      \<and> (\<forall>l \<in> set (ls @ [l_last]). length (findall l) \<le> 1))
   \<and> ((\<forall>l \<in> set cls. wf_line l) \<longrightarrow> findall (render cls) = conflict_paths cls)
   \<and> findall (''CONFLICT (content): Merge conflict in src/A.txt'' @ [newline]
               @ ''CONFLICT (add/add): Merge conflict in src/B.txt'')
       = [''src/A.txt'', ''src/B.txt'']"
proof -
  have "findall (''CONFLICT (content): Merge conflict in src/A.txt'' @ [newline]
                  @ ''CONFLICT (add/add): Merge conflict in src/B.txt'')
          = [''src/A.txt'', ''src/B.txt'']"
    by code_simp
  moreover have "length (findall l) \<le> 1" if "newline \<notin> set l" for l
    using that unfolding findall_def by (rule findall_from_line_length)
  ultimately show ?thesis
    using findall_lines [of ls l_last] findall_render_lines [of cls] by auto
qed

lemma wf_line_examples:
  "wf_line (Other ''Auto-merging src/A.txt'')"
  "wf_line (Conflict ''content'' ''src/A.txt'')"
  "wf_line (Conflict ''add/add'' ''src/B.txt'')"
  by (simp_all add: newline_def separator_def sublist_Cons_right)

theorem conflict_extraction_witness:
  "newline \<notin> set ''Auto-merging src/A.txt''
   \<and> newline \<notin> set ''CONFLICT (content): Merge conflict in src/A.txt''
   \<and> newline \<notin> set ''Automatic merge failed''
   \<and> findall (concat (map (\<lambda>l. l @ [newline])
                [''Auto-merging src/A.txt'', ''CONFLICT (content): Merge conflict in src/A.txt''])
              @ ''Automatic merge failed'')
       = concat (map findall
                  [''Auto-merging src/A.txt'', ''CONFLICT (content): Merge conflict in src/A.txt''])
         @ findall ''Automatic merge failed''
   \<and> wf_line (Other ''Auto-merging src/A.txt'')
   \<and> wf_line (Conflict ''content'' ''src/A.txt'')
   \<and> wf_line (Conflict ''add/add'' ''src/B.txt'')
   \<and> findall (render [Other ''Auto-merging src/A.txt'', Conflict ''content'' ''src/A.txt'',
                       Conflict ''add/add'' ''src/B.txt'', Conflict ''content'' ''src/A.txt''])
       = [''src/A.txt'', ''src/B.txt'', ''src/A.txt'']"
proof -
  have n: "newline \<notin> set ''Auto-merging src/A.txt''"
    "newline \<notin> set ''CONFLICT (content): Merge conflict in src/A.txt''"
    "newline \<notin> set ''Automatic merge failed''"
    by (simp_all add: newline_def)
  have w: "\<forall>l \<in> set [Other ''Auto-merging src/A.txt'', Conflict ''content'' ''src/A.txt'',
                   Conflict ''add/add'' ''src/B.txt'', Conflict ''content'' ''src/A.txt'']. wf_line l"
    using wf_line_examples by simp
  note t = conflict_extraction
      [of "[''Auto-merging src/A.txt'', ''CONFLICT (content): Merge conflict in src/A.txt'']"
          "''Automatic merge failed''"
          "[Other ''Auto-merging src/A.txt'', Conflict ''content'' ''src/A.txt'',
            Conflict ''add/add'' ''src/B.txt'', Conflict ''content'' ''src/A.txt'']"]
  from t n have a: "findall (concat (map (\<lambda>l. l @ [newline])
                [''Auto-merging src/A.txt'', ''CONFLICT (content): Merge conflict in src/A.txt''])
              @ ''Automatic merge failed'')
       = concat (map findall
                  [''Auto-merging src/A.txt'', ''CONFLICT (content): Merge conflict in src/A.txt''])
         @ findall ''Automatic merge failed''"
    by simp
  from t w have b: "findall (render [Other ''Auto-merging src/A.txt'', Conflict ''content'' ''src/A.txt'',
                       Conflict ''add/add'' ''src/B.txt'', Conflict ''content'' ''src/A.txt''])
       = [''src/A.txt'', ''src/B.txt'', ''src/A.txt'']"
    by simp
  from n a wf_line_examples b show ?thesis by blast
qed

text \<open>
  C6. Console output in which the text \<open>CONFLICT (\<close> does not occur has no conflicting
  file; and whenever the extraction returns no file, \<open>diff3_pair_analysis\<close> prints the
  output and the notice and returns, and \<open>diff3_analysis\<close> only prints its closing line:
  no diff is run and nothing is written.
\<close>

theorem no_conflict_no_diff:
  "(\<not> sublist ''CONFLICT ('' (merge_stdout w) \<longrightarrow> findall (merge_stdout w) = [])
   \<and> (findall (merge_stdout w) = [] \<longrightarrow>
        diff3_pair_analysis w merge_tool1 merge_tool2 results_index repo_output_dir
          = [Print (merge_stdout w), Print ''No conflict files to search'']
        \<and> filter is_diff_or_write
            (diff3_pair_analysis w merge_tool1 merge_tool2 results_index repo_output_dir) = []
        \<and> diff3_analysis w = ([Print ''reached delete repo''], Inr ()))"
  by (simp add: findall_no_conflict diff3_pair_analysis_def diff3_analysis_def)

theorem no_conflict_no_diff_witness:
  "\<not> sublist ''CONFLICT ('' (merge_stdout world_clean)
   \<and> findall (merge_stdout world_clean) = []
   \<and> diff3_pair_analysis world_clean ''gitmerge_ort'' ''spork'' 42 ''out''
       = [Print (''Auto-merging f.txt'' @ [newline]), Print ''No conflict files to search'']
   \<and> filter is_diff_or_write
        (diff3_pair_analysis world_clean ''gitmerge_ort'' ''spork'' 42 ''out'') = []"
proof -
  have h: "\<not> sublist ''CONFLICT ('' (merge_stdout world_clean)"
    by (simp add: world_clean_def newline_def sublist_Cons_right)
  have m: "merge_stdout world_clean = ''Auto-merging f.txt'' @ [newline]"
    by (simp add: world_clean_def)
  from no_conflict_no_diff [of world_clean "''gitmerge_ort''" "''spork''" 42 "''out''"] h
  have "findall (merge_stdout world_clean) = []"
    and "diff3_pair_analysis world_clean ''gitmerge_ort'' ''spork'' 42 ''out''
       = [Print (merge_stdout world_clean), Print ''No conflict files to search'']"
    and "filter is_diff_or_write
        (diff3_pair_analysis world_clean ''gitmerge_ort'' ''spork'' 42 ''out'') = []"
    by blast+
  with h m show ?thesis by simp
qed

section \<open>Properties of the report writer\<close>

declare str_nat.simps [simp del]

lemma digit_char_not_slash: "d < 10 \<Longrightarrow> digit_char d \<noteq> CHR ''/''"
proof -
  assume "d < 10"
  then have "digit_char d \<in> set ''0123456789''"
    unfolding digit_char_def by (intro nth_mem) simp
  then show ?thesis by auto
qed

lemma str_nat_no_slash: "CHR ''/'' \<notin> set (str_nat n)"
proof (induction n rule: str_nat.induct)
  case (1 n)
  show ?case
  proof (cases "n < 10")
    case True
    then show ?thesis
      using digit_char_not_slash [of n] by (subst str_nat.simps) auto
  next
    case False
    with 1 have "CHR ''/'' \<notin> set (str_nat (n div 10))" by simp
    moreover have "digit_char (n mod 10) \<noteq> CHR ''/''" by (rule digit_char_not_slash) simp
    ultimately show ?thesis using False by (subst str_nat.simps) auto
  qed
qed

lemma str_nat_nonempty: "str_nat n \<noteq> []"
  by (subst str_nat.simps) simp

lemma str_int_props: "CHR ''/'' \<notin> set (str_int i)" "str_int i \<noteq> []"
  by (simp_all add: str_int_def str_nat_no_slash str_nat_nonempty)

lemma join2_plain:
  assumes "a \<noteq> []" and "last a \<noteq> CHR ''/''" and "b \<noteq> []" and "CHR ''/'' \<notin> set b"
  shows "join2 a b = a @ ''/'' @ b"
proof -
  from assms(3,4) have "\<not> prefix ''/'' b" by (cases b) auto
  with assms(1,2) show ?thesis by (simp add: join2_def)
qed

lemma last_no_slash: "b \<noteq> [] \<Longrightarrow> CHR ''/'' \<notin> set b \<Longrightarrow> last (a @ ''/'' @ b) \<noteq> CHR ''/''"
  by (metis append_is_Nil_conv last_appendR last_in_set)

lemma rfind_opt_absent: "c \<notin> set s \<Longrightarrow> rfind_opt c s = None"
  by (induction s) auto

lemma rfind_opt_last: "c \<notin> set ys \<Longrightarrow> rfind_opt c (xs @ c # ys) = Some (length xs)"
  by (induction xs) (auto simp: rfind_opt_absent)

lemma rfind_opt_Some: "rfind_opt c s = Some i \<Longrightarrow> i < length s \<and> c \<notin> set (drop (Suc i) s)"
proof (induction s arbitrary: i)
  case Nil
  then show ?case by simp
next
  case (Cons x xs)
  show ?case
  proof (cases "rfind_opt c xs")
    case None
    with Cons.prems have "i = 0" by (auto split: if_splits)
    moreover from None have "c \<notin> set xs"
      by (induction xs) (auto split: option.splits if_splits)
    ultimately show ?thesis by simp
  next
    case (Some j)
    with Cons.prems have "i = Suc j" by simp
    with Cons.IH [OF Some] show ?thesis by simp
  qed
qed

lemma basename_no_slash: "CHR ''/'' \<notin> set (basename p)"
proof (cases "rfind_opt CHR ''/'' p")
  case None
  then have "CHR ''/'' \<notin> set p"
    by (induction p) (auto split: option.splits if_splits)
  with None show ?thesis by (simp add: basename_def rfind_def)
next
  case (Some i)
  from rfind_opt_Some [OF this] Some show ?thesis
    by (simp add: basename_def rfind_def nat_add_distrib)
qed

lemma splitext_fst_subset: "set (fst (splitext p)) \<subseteq> set p"
  by (auto simp: splitext_def Let_def dest: in_set_takeD)

lemma stem_no_slash: "CHR ''/'' \<notin> set (fst (splitext (basename p)))"
  using splitext_fst_subset [of "basename p"] basename_no_slash [of p] by blast

lemma rstrip_slash_id: "x \<noteq> [] \<Longrightarrow> last x \<noteq> CHR ''/'' \<Longrightarrow> rstrip_slash (x @ ''/'') = x"
proof -
  assume x: "x \<noteq> []" "last x \<noteq> CHR ''/''"
  then have "hd (rev x) \<noteq> CHR ''/''" by (simp add: hd_rev)
  with x(1) have "dropWhile (\<lambda>c. c = CHR ''/'') (rev x) = rev x" by (cases "rev x") auto
  then show ?thesis by (simp add: rstrip_slash_def)
qed

lemma dirname_file:
  assumes "x \<noteq> []" and "last x \<noteq> CHR ''/''" and "CHR ''/'' \<notin> set name"
  shows "dirname (x @ ''/'' @ name) = x"
proof -
  from assms(3) have r: "rfind CHR ''/'' (x @ ''/'' @ name) = int (length x)"
    by (simp add: rfind_def rfind_opt_last)
  have "x @ ''/'' \<noteq> replicate (length (x @ ''/'')) CHR ''/''"
  proof
    assume "x @ ''/'' = replicate (length (x @ ''/'')) CHR ''/''"
    then have "set (x @ ''/'') \<subseteq> {CHR ''/''}" by (metis set_replicate_conv_if subset_refl empty_subsetI)
    moreover from assms(1) have "last x \<in> set x" by (rule last_in_set)
    ultimately show False using assms(2) by auto
  qed
  with r rstrip_slash_id [OF assms(1,2)] show ?thesis
    by (simp add: dirname_def Let_def nat_add_distrib)
qed


lemma diff_filename_plain:
  assumes "repo_output_dir \<noteq> []" and "last repo_output_dir \<noteq> CHR ''/''"
    and "merge_tool \<noteq> []" and "CHR ''/'' \<notin> set merge_tool"
    and "CHR ''/'' \<notin> set base"
  shows "diff_filename repo_output_dir results_index merge_tool base =
           (repo_output_dir @ ''/'' @ str_int results_index @ ''/'' @ merge_tool)
           @ ''/'' @ (''diff_'' @ base @ ''.txt'')"
proof -
  let ?i = "str_int results_index"
  let ?n = "''diff_'' @ base @ ''.txt''"
  have 1: "join2 repo_output_dir ?i = repo_output_dir @ ''/'' @ ?i"
    using assms(1,2) str_int_props by (intro join2_plain) auto
  have l1: "last (repo_output_dir @ ''/'' @ ?i) \<noteq> CHR ''/''"
    using str_int_props by (intro last_no_slash) auto
  have 2: "join2 (repo_output_dir @ ''/'' @ ?i) merge_tool
      = (repo_output_dir @ ''/'' @ ?i) @ ''/'' @ merge_tool"
    using l1 assms(3,4) by (intro join2_plain) auto
  have l2: "last ((repo_output_dir @ ''/'' @ ?i) @ ''/'' @ merge_tool) \<noteq> CHR ''/''"
    using assms(3,4) by (intro last_no_slash) auto
  have 3: "join2 ((repo_output_dir @ ''/'' @ ?i) @ ''/'' @ merge_tool) ?n
      = ((repo_output_dir @ ''/'' @ ?i) @ ''/'' @ merge_tool) @ ''/'' @ ?n"
    using l2 assms(5) by (intro join2_plain) auto
  show ?thesis
    unfolding diff_filename_def path_join_def by (simp only: foldl.simps 1 2 3) simp
qed

lemma write_report_plain:
  assumes "x \<noteq> []" and "last x \<noteq> CHR ''/''" and "CHR ''/'' \<notin> set name"
  shows "write_report (x @ ''/'' @ name) t =
           [MakeDirs x, WriteFile (x @ ''/'' @ name) t,
            Print (''Diff results saved to '' @ x @ ''/'' @ name)]"
  using dirname_file [OF assms] by (simp add: write_report_def)

lemma persisted_append: "persisted (xs @ ys) = persisted xs @ persisted ys"
  by (induction xs rule: persisted.induct) simp_all

lemma persisted_run_comparison: "persisted (fst (run_comparison w b a p)) = []"
  by (simp add: run_comparison_def Let_def)

lemma example_values:
  "str_int 42 = ''42''" "fst (splitext (basename ''src/A.java'')) = ''A''"
  by code_simp+

text \<open>
  C9. For an output root that is not empty and does not end with a slash and a tool name
  that is not empty and holds no slash, the report of a comparison is written to
  \<open><output_root>/<scenario_id>/<tool_name>/diff_<file_basename>.txt\<close>, the file basename
  being the last component of the conflicting file without its extension, after the
  directory of that path is created; these are the only files one conflicting file
  leaves, one for each tool. For scenario 42, tool \<open>gitmerge_ort\<close> and file
  \<open>src/A.java\<close> the path is \<open><output_root>/42/gitmerge_ort/diff_A.txt\<close>.
\<close>

theorem report_writer_path:
  assumes "repo_output_dir \<noteq> []" and "last repo_output_dir \<noteq> CHR ''/''"
    and "merge_tool1 \<noteq> []" and "CHR ''/'' \<notin> set merge_tool1"
    and "merge_tool2 \<noteq> []" and "CHR ''/'' \<notin> set merge_tool2"
    and "file_basename = fst (splitext (basename conflicting_file))"
    and "dir1 = repo_output_dir @ ''/'' @ str_int results_index @ ''/'' @ merge_tool1"
    and "dir2 = repo_output_dir @ ''/'' @ str_int results_index @ ''/'' @ merge_tool2"
  shows "diff_filename repo_output_dir results_index merge_tool1 file_basename
           = dir1 @ ''/diff_'' @ file_basename @ ''.txt''
         \<and> write_report (dir1 @ ''/diff_'' @ file_basename @ ''.txt'') diff_text
             = [MakeDirs dir1, WriteFile (dir1 @ ''/diff_'' @ file_basename @ ''.txt'') diff_text,
                Print (''Diff results saved to '' @ dir1 @ ''/diff_'' @ file_basename @ ''.txt'')]
         \<and> map fst (persisted (analyse_file w merge_tool1 merge_tool2 results_index
                                 repo_output_dir conflicting_file))
             = [dir1 @ ''/diff_'' @ file_basename @ ''.txt'',
                dir2 @ ''/diff_'' @ file_basename @ ''.txt'']
         \<and> diff_filename repo_output_dir 42 ''gitmerge_ort''
               (fst (splitext (basename ''src/A.java'')))
             = repo_output_dir @ ''/42/gitmerge_ort/diff_A.txt''"
proof -
  let ?name = "''diff_'' @ file_basename @ ''.txt''"
  have ns: "CHR ''/'' \<notin> set file_basename"
    unfolding assms(7) by (rule stem_no_slash)
  then have nn: "CHR ''/'' \<notin> set ?name" by simp
  have f1: "diff_filename repo_output_dir results_index merge_tool1 file_basename
      = dir1 @ ''/'' @ ?name"
    unfolding assms(8) by (rule diff_filename_plain [OF assms(1-4) ns])
  have f2: "diff_filename repo_output_dir results_index merge_tool2 file_basename
      = dir2 @ ''/'' @ ?name"
    unfolding assms(9) by (rule diff_filename_plain [OF assms(1,2,5,6) ns])
  have d1: "dir1 \<noteq> []" "last dir1 \<noteq> CHR ''/''"
    using assms(3,4) last_no_slash [of merge_tool1 "repo_output_dir @ ''/'' @ str_int results_index"]
    unfolding assms(8) by simp_all
  have d2: "dir2 \<noteq> []" "last dir2 \<noteq> CHR ''/''"
    using assms(5,6) last_no_slash [of merge_tool2 "repo_output_dir @ ''/'' @ str_int results_index"]
    unfolding assms(9) by simp_all
  have w1: "write_report (dir1 @ ''/'' @ ?name) t
      = [MakeDirs dir1, WriteFile (dir1 @ ''/'' @ ?name) t,
         Print (''Diff results saved to '' @ dir1 @ ''/'' @ ?name)]" for t
    by (rule write_report_plain [OF d1 nn])
  have w2: "write_report (dir2 @ ''/'' @ ?name) t
      = [MakeDirs dir2, WriteFile (dir2 @ ''/'' @ ?name) t,
         Print (''Diff results saved to '' @ dir2 @ ''/'' @ ?name)]" for t
    by (rule write_report_plain [OF d2 nn])
  have p: "map fst (persisted (analyse_file w merge_tool1 merge_tool2 results_index
                                 repo_output_dir conflicting_file))
      = [dir1 @ ''/'' @ ?name, dir2 @ ''/'' @ ?name]"
    unfolding analyse_file_def Let_def assms(7) [symmetric]
    by (simp only: split_beta persisted_append persisted_run_comparison f1 f2 w1 w2) simp
  have "CHR ''/'' \<notin> set ''A''" "''gitmerge_ort'' \<noteq> []" "CHR ''/'' \<notin> set ''gitmerge_ort''"
    by simp_all
  from diff_filename_plain [OF assms(1,2) this(2,3,1), of 42]
  have e: "diff_filename repo_output_dir 42 ''gitmerge_ort''
               (fst (splitext (basename ''src/A.java'')))
             = repo_output_dir @ ''/42/gitmerge_ort/diff_A.txt''"
    by (simp add: example_values)
  from f1 w1 [of diff_text] p e show ?thesis by simp
qed

theorem report_writer_path_witness:
  "''out'' \<noteq> [] \<and> last ''out'' \<noteq> CHR ''/''
   \<and> ''gitmerge_ort'' \<noteq> [] \<and> CHR ''/'' \<notin> set ''gitmerge_ort''
   \<and> ''spork'' \<noteq> [] \<and> CHR ''/'' \<notin> set ''spork''
   \<and> diff_filename ''out'' 42 ''gitmerge_ort'' (fst (splitext (basename ''src/A.java'')))
       = ''out/42/gitmerge_ort/diff_A.txt''
   \<and> map fst (persisted (analyse_file world_missing_base ''gitmerge_ort'' ''spork'' 42 ''out''
                           ''src/A.java''))
       = [''out/42/gitmerge_ort/diff_A.txt'', ''out/42/spork/diff_A.txt'']"
proof -
  have h: "''out'' \<noteq> []" "last ''out'' \<noteq> CHR ''/''"
    "''gitmerge_ort'' \<noteq> []" "CHR ''/'' \<notin> set ''gitmerge_ort''"
    "''spork'' \<noteq> []" "CHR ''/'' \<notin> set ''spork''"
    by simp_all
  from report_writer_path
         [where conflicting_file = "''src/A.java''" and results_index = 42
            and w = world_missing_base, OF h refl refl refl] h
  show ?thesis by (simp add: example_values)
qed

section \<open>Properties of the comparison\<close>

lemma run_comparison_cong:
  assumes "stdout (diff3 w' b a p) = stdout (diff3 w b a p)"
    and "sublist error_message (stderr (diff3 w' b a p))
           \<longleftrightarrow> sublist error_message (stderr (diff3 w b a p))"
    and "diff w' = diff w"
  shows "run_comparison w' b a p = run_comparison w b a p"
  using assms by (simp add: run_comparison_def Let_def)

lemma diff3_analysis_loop_cong:
  assumes "\<And>m. diff3_analysis_file w' m = diff3_analysis_file w m"
    and "xdg_open_fails w' = xdg_open_fails w"
  shows "diff3_analysis_loop w' ms = diff3_analysis_loop w ms"
  by (induction ms) (simp_all add: assms Let_def)

text \<open>
  C3 (amended). When the error stream of \<open>diff3\<close> contains the missing-file text, the
  comparison runs the two-way \<open>diff\<close> of the merge attempt and the programmer merge and
  its result is the output of that \<open>diff\<close>. When this happens for both tools on a
  conflicting file, the two reports written for the file hold the outputs of the two
  two-way diffs under the report paths, and nothing else.
\<close>

theorem fallback_two_way_diff:
  assumes "base = path_join ''./repos/base'' [path_join (repo_name w) [conflicting_file]]"
    and "attempt1 = path_join ''./repos/merge_attempt1'' [path_join (repo_name w) [conflicting_file]]"
    and "attempt2 = path_join ''./repos/merge_attempt2'' [path_join (repo_name w) [conflicting_file]]"
    and "programmer_merge
           = path_join ''./repos/programmer_merge'' [path_join (repo_name w) [conflicting_file]]"
    and "sublist error_message (stderr (diff3 w base attempt1 programmer_merge))"
    and "sublist error_message (stderr (diff3 w base attempt2 programmer_merge))"
  shows "run_comparison w base attempt1 programmer_merge
           = ([RunDiff3 base attempt1 programmer_merge, RunDiff attempt1 programmer_merge,
               TerminalStderr (stderr (diff w attempt1 programmer_merge))],
              stdout (diff w attempt1 programmer_merge))
         \<and> run_comparison w base attempt2 programmer_merge
           = ([RunDiff3 base attempt2 programmer_merge, RunDiff attempt2 programmer_merge,
               TerminalStderr (stderr (diff w attempt2 programmer_merge))],
              stdout (diff w attempt2 programmer_merge))
         \<and> persisted (analyse_file w merge_tool1 merge_tool2 results_index repo_output_dir
                        conflicting_file)
             = [(diff_filename repo_output_dir results_index merge_tool1
                   (fst (splitext (basename conflicting_file))),
                 stdout (diff w attempt1 programmer_merge)),
                (diff_filename repo_output_dir results_index merge_tool2
                   (fst (splitext (basename conflicting_file))),
                 stdout (diff w attempt2 programmer_merge))]"
proof -
  from assms(5) have r1: "run_comparison w base attempt1 programmer_merge
           = ([RunDiff3 base attempt1 programmer_merge, RunDiff attempt1 programmer_merge,
               TerminalStderr (stderr (diff w attempt1 programmer_merge))],
              stdout (diff w attempt1 programmer_merge))"
    by (simp add: run_comparison_def Let_def)
  from assms(6) have r2: "run_comparison w base attempt2 programmer_merge
           = ([RunDiff3 base attempt2 programmer_merge, RunDiff attempt2 programmer_merge,
               TerminalStderr (stderr (diff w attempt2 programmer_merge))],
              stdout (diff w attempt2 programmer_merge))"
    by (simp add: run_comparison_def Let_def)
  have "persisted (analyse_file w merge_tool1 merge_tool2 results_index repo_output_dir
                        conflicting_file)
             = [(diff_filename repo_output_dir results_index merge_tool1
                   (fst (splitext (basename conflicting_file))),
                 stdout (diff w attempt1 programmer_merge)),
                (diff_filename repo_output_dir results_index merge_tool2
                   (fst (splitext (basename conflicting_file))),
                 stdout (diff w attempt2 programmer_merge))]"
    unfolding analyse_file_def Let_def assms(1-4) [symmetric] r1 r2
    by (simp add: write_report_def Let_def)
  with r1 r2 show ?thesis by simp
qed

lemma missing_base_signal:
  "sublist error_message
     (stderr (diff3 world_missing_base ''./repos/base/r/f.txt'' ''./repos/merge_attempt1/r/f.txt''
                ''./repos/programmer_merge/r/f.txt''))"
  "sublist error_message
     (stderr (diff3 world_missing_base ''./repos/base/r/f.txt'' ''./repos/merge_attempt2/r/f.txt''
                ''./repos/programmer_merge/r/f.txt''))"
  by (simp_all add: world_missing_base_def error_message_def sublist_Cons_right)

lemma missing_base_paths:
  "''./repos/base/r/f.txt'' = path_join ''./repos/base'' [path_join (repo_name world_missing_base) [''f.txt'']]"
  "''./repos/merge_attempt1/r/f.txt''
     = path_join ''./repos/merge_attempt1'' [path_join (repo_name world_missing_base) [''f.txt'']]"
  "''./repos/merge_attempt2/r/f.txt''
     = path_join ''./repos/merge_attempt2'' [path_join (repo_name world_missing_base) [''f.txt'']]"
  "''./repos/programmer_merge/r/f.txt''
     = path_join ''./repos/programmer_merge'' [path_join (repo_name world_missing_base) [''f.txt'']]"
  by (simp_all add: world_missing_base_def path_join_def join2_def)

theorem fallback_two_way_diff_witness:
  "sublist error_message
     (stderr (diff3 world_missing_base ''./repos/base/r/f.txt'' ''./repos/merge_attempt1/r/f.txt''
                ''./repos/programmer_merge/r/f.txt''))
   \<and> sublist error_message
       (stderr (diff3 world_missing_base ''./repos/base/r/f.txt'' ''./repos/merge_attempt2/r/f.txt''
                  ''./repos/programmer_merge/r/f.txt''))
   \<and> run_comparison world_missing_base ''./repos/base/r/f.txt'' ''./repos/merge_attempt1/r/f.txt''
        ''./repos/programmer_merge/r/f.txt''
       = ([RunDiff3 ''./repos/base/r/f.txt'' ''./repos/merge_attempt1/r/f.txt''
             ''./repos/programmer_merge/r/f.txt'',
           RunDiff ''./repos/merge_attempt1/r/f.txt'' ''./repos/programmer_merge/r/f.txt'',
           TerminalStderr []], [])
   \<and> map snd (persisted (analyse_file world_missing_base ''gitmerge_ort'' ''spork'' 42 ''out''
                           ''f.txt''))
       = [[], []]"
proof -
  have d: "diff world_missing_base a p = \<lparr>stdout = [], stderr = []\<rparr>" for a p
    by (simp add: world_missing_base_def)
  from fallback_two_way_diff [OF missing_base_paths missing_base_signal,
      of "''gitmerge_ort''" "''spork''" 42 "''out''"]
    missing_base_signal
  show ?thesis by (simp add: d)
qed

text \<open>
  C3 as stated fails: a run in which the base file is missing and the fallback
  \<open>diff\<close> is taken leaves the same files with the same content as a run in which
  \<open>diff3\<close> succeeds and no \<open>diff\<close> is run, so what is persisted does not record the mode.
\<close>

theorem fallback_mode_not_recorded_counterexample:
  "sublist error_message
     (stderr (diff3 world_missing_base ''./repos/base/r/f.txt'' ''./repos/merge_attempt1/r/f.txt''
                ''./repos/programmer_merge/r/f.txt''))
   \<and> RunDiff ''./repos/merge_attempt1/r/f.txt'' ''./repos/programmer_merge/r/f.txt''
       \<in> set (diff3_pair_analysis world_missing_base ''gitmerge_ort'' ''spork'' 42 ''out'')
   \<and> RunDiff ''./repos/merge_attempt1/r/f.txt'' ''./repos/programmer_merge/r/f.txt''
       \<notin> set (diff3_pair_analysis world_equal_files ''gitmerge_ort'' ''spork'' 42 ''out'')
   \<and> persisted (diff3_pair_analysis world_missing_base ''gitmerge_ort'' ''spork'' 42 ''out'')
       = persisted (diff3_pair_analysis world_equal_files ''gitmerge_ort'' ''spork'' 42 ''out'')
   \<and> persisted (diff3_pair_analysis world_missing_base ''gitmerge_ort'' ''spork'' 42 ''out'')
       = [(''out/42/gitmerge_ort/diff_f.txt'', []), (''out/42/spork/diff_f.txt'', [])]"
proof -
  have a: "diff3_pair_analysis world_missing_base ''gitmerge_ort'' ''spork'' 42 ''out''
      = [Print conflict_output, PrintList [''f.txt''],
         Print ''Checking out left1a'', Print ''Checking out right2b'',
         RunDiff3 ''./repos/base/r/f.txt'' ''./repos/merge_attempt1/r/f.txt''
           ''./repos/programmer_merge/r/f.txt'',
         RunDiff ''./repos/merge_attempt1/r/f.txt'' ''./repos/programmer_merge/r/f.txt'',
         TerminalStderr [], MakeDirs ''out/42/gitmerge_ort'',
         WriteFile ''out/42/gitmerge_ort/diff_f.txt'' [],
         Print ''Diff results saved to out/42/gitmerge_ort/diff_f.txt'',
         RunDiff3 ''./repos/base/r/f.txt'' ''./repos/merge_attempt2/r/f.txt''
           ''./repos/programmer_merge/r/f.txt'',
         RunDiff ''./repos/merge_attempt2/r/f.txt'' ''./repos/programmer_merge/r/f.txt'',
         TerminalStderr [], MakeDirs ''out/42/spork'',
         WriteFile ''out/42/spork/diff_f.txt'' [],
         Print ''Diff results saved to out/42/spork/diff_f.txt'']"
    by code_simp
  have b: "diff3_pair_analysis world_equal_files ''gitmerge_ort'' ''spork'' 42 ''out''
      = [Print conflict_output, PrintList [''f.txt''],
         Print ''Checking out left1a'', Print ''Checking out right2b'',
         RunDiff3 ''./repos/base/r/f.txt'' ''./repos/merge_attempt1/r/f.txt''
           ''./repos/programmer_merge/r/f.txt'',
         MakeDirs ''out/42/gitmerge_ort'',
         WriteFile ''out/42/gitmerge_ort/diff_f.txt'' [],
         Print ''Diff results saved to out/42/gitmerge_ort/diff_f.txt'',
         RunDiff3 ''./repos/base/r/f.txt'' ''./repos/merge_attempt2/r/f.txt''
           ''./repos/programmer_merge/r/f.txt'',
         MakeDirs ''out/42/spork'',
         WriteFile ''out/42/spork/diff_f.txt'' [],
         Print ''Diff results saved to out/42/spork/diff_f.txt'']"
    by code_simp
  show ?thesis unfolding a b using missing_base_signal(1) by simp
qed

text \<open>
  C4 (amended). The error stream of \<open>diff3\<close> is captured and only searched for the
  missing-file text. Two runs that differ in nothing but that stream, and agree on
  whether the text occurs in it, do and report exactly the same in both scripts: every
  other diagnostic of \<open>diff3\<close> is dropped. The error stream of the fallback \<open>diff\<close> is not
  captured and reaches the terminal.
\<close>

theorem diff3_diagnostics_dropped:
  assumes "repo_name w' = repo_name w" and "merge_stdout w' = merge_stdout w"
    and "diff w' = diff w" and "xdg_open_fails w' = xdg_open_fails w"
    and "left_sha w' = left_sha w" and "right_sha w' = right_sha w"
    and "\<forall>b a p. stdout (diff3 w' b a p) = stdout (diff3 w b a p)"
    and "\<forall>b a p. sublist error_message (stderr (diff3 w' b a p))
                   \<longleftrightarrow> sublist error_message (stderr (diff3 w b a p))"
  shows "diff3_pair_analysis w' merge_tool1 merge_tool2 results_index repo_output_dir
           = diff3_pair_analysis w merge_tool1 merge_tool2 results_index repo_output_dir
         \<and> diff3_analysis w' = diff3_analysis w
         \<and> (sublist error_message (stderr (diff3 w base attempt programmer_merge))
              \<longrightarrow> TerminalStderr (stderr (diff w attempt programmer_merge))
                    \<in> set (fst (run_comparison w base attempt programmer_merge)))"
proof -
  have rc: "run_comparison w' b a p = run_comparison w b a p" for b a p
    using assms(3,7,8) by (intro run_comparison_cong) auto
  have af: "analyse_file w' t1 t2 i out = analyse_file w t1 t2 i out" for t1 t2 i out
    by (rule ext) (simp add: analyse_file_def rc assms(1))
  have "diff3_pair_analysis w' merge_tool1 merge_tool2 results_index repo_output_dir
           = diff3_pair_analysis w merge_tool1 merge_tool2 results_index repo_output_dir"
    by (simp add: diff3_pair_analysis_def Let_def af assms(2,5,6))
  moreover have df: "diff3_analysis_file w' m = diff3_analysis_file w m" for m
    by (simp add: diff3_analysis_file_def rc assms(1))
  have "diff3_analysis w' = diff3_analysis w"
    by (simp add: diff3_analysis_def assms(2) diff3_analysis_loop_cong [OF df assms(4)])
  moreover have "sublist error_message (stderr (diff3 w base attempt programmer_merge))
              \<longrightarrow> TerminalStderr (stderr (diff w attempt programmer_merge))
                    \<in> set (fst (run_comparison w base attempt programmer_merge))"
    by (simp add: run_comparison_def Let_def)
  ultimately show ?thesis by blast
qed

lemma noisy_quiet:
  "repo_name world_noisy = repo_name world_quiet"
  "merge_stdout world_noisy = merge_stdout world_quiet"
  "diff world_noisy = diff world_quiet"
  "xdg_open_fails world_noisy = xdg_open_fails world_quiet"
  "left_sha world_noisy = left_sha world_quiet"
  "right_sha world_noisy = right_sha world_quiet"
  "\<forall>b a p. stdout (diff3 world_noisy b a p) = stdout (diff3 world_quiet b a p)"
  "\<forall>b a p. sublist error_message (stderr (diff3 world_noisy b a p))
             \<longleftrightarrow> sublist error_message (stderr (diff3 world_quiet b a p))"
  by (simp_all add: world_noisy_def world_quiet_def error_message_def sublist_Cons_right)

theorem diff3_diagnostics_dropped_witness:
  "repo_name world_noisy = repo_name world_quiet
   \<and> merge_stdout world_noisy = merge_stdout world_quiet
   \<and> diff world_noisy = diff world_quiet
   \<and> xdg_open_fails world_noisy = xdg_open_fails world_quiet
   \<and> left_sha world_noisy = left_sha world_quiet
   \<and> right_sha world_noisy = right_sha world_quiet
   \<and> stderr (diff3 world_noisy ''b'' ''a'' ''p'') \<noteq> stderr (diff3 world_quiet ''b'' ''a'' ''p'')
   \<and> diff3_pair_analysis world_noisy ''gitmerge_ort'' ''spork'' 42 ''out''
       = diff3_pair_analysis world_quiet ''gitmerge_ort'' ''spork'' 42 ''out''
   \<and> diff3_analysis world_noisy = diff3_analysis world_quiet"
proof -
  have ne: "stderr (diff3 world_noisy ''b'' ''a'' ''p'') \<noteq> stderr (diff3 world_quiet ''b'' ''a'' ''p'')"
    by (simp add: world_noisy_def world_quiet_def)
  from diff3_diagnostics_dropped [OF noisy_quiet, of "''gitmerge_ort''" "''spork''" 42 "''out''"]
    noisy_quiet(1-6) ne
  show ?thesis by blast
qed

text \<open>
  C4 as stated fails: \<open>diff3\<close> reports that memory is exhausted, which is not the
  missing-file text, and the run prints, writes and returns exactly what the run
  without that diagnostic does.
\<close>

theorem diagnostic_not_surfaced_counterexample:
  "stderr (diff3 world_noisy ''./repos/base/r/f.txt'' ''./repos/merge_attempt1/r/f.txt''
             ''./repos/programmer_merge/r/f.txt'') = ''diff3: memory exhausted''
   \<and> \<not> sublist error_message ''diff3: memory exhausted''
   \<and> stderr (diff3 world_quiet ''./repos/base/r/f.txt'' ''./repos/merge_attempt1/r/f.txt''
               ''./repos/programmer_merge/r/f.txt'') = []
   \<and> diff3_pair_analysis world_noisy ''gitmerge_ort'' ''spork'' 42 ''out''
       = diff3_pair_analysis world_quiet ''gitmerge_ort'' ''spork'' 42 ''out''
   \<and> diff3_pair_analysis world_noisy ''gitmerge_ort'' ''spork'' 42 ''out''
       = [Print conflict_output, PrintList [''f.txt''],
         Print ''Checking out left1a'', Print ''Checking out right2b'',
          RunDiff3 ''./repos/base/r/f.txt'' ''./repos/merge_attempt1/r/f.txt''
            ''./repos/programmer_merge/r/f.txt'',
          MakeDirs ''out/42/gitmerge_ort'',
          WriteFile ''out/42/gitmerge_ort/diff_f.txt'' ''===='',
          Print ''Diff results saved to out/42/gitmerge_ort/diff_f.txt'',
          RunDiff3 ''./repos/base/r/f.txt'' ''./repos/merge_attempt2/r/f.txt''
            ''./repos/programmer_merge/r/f.txt'',
          MakeDirs ''out/42/spork'',
          WriteFile ''out/42/spork/diff_f.txt'' ''===='',
          Print ''Diff results saved to out/42/spork/diff_f.txt'']
   \<and> diff3_analysis world_noisy = diff3_analysis world_quiet
   \<and> diff3_analysis world_noisy
       = ([RunDiff3 ''./repos/base/r/f.txt'' ''./repos/merge_attempt/r/f.txt''
             ''./repos/programmer_merge/r/f.txt'',
           WriteTemp ''===='', XdgOpen, RemoveTemp, Print ''reached delete repo''], Inr ())"
proof -
  have s: "stderr (diff3 world_noisy ''./repos/base/r/f.txt'' ''./repos/merge_attempt1/r/f.txt''
             ''./repos/programmer_merge/r/f.txt'') = ''diff3: memory exhausted''"
    "stderr (diff3 world_quiet ''./repos/base/r/f.txt'' ''./repos/merge_attempt1/r/f.txt''
               ''./repos/programmer_merge/r/f.txt'') = []"
    by (simp_all add: world_noisy_def world_quiet_def)
  have n: "\<not> sublist error_message ''diff3: memory exhausted''"
    by (simp add: error_message_def sublist_Cons_right)
  have a: "diff3_pair_analysis world_noisy ''gitmerge_ort'' ''spork'' 42 ''out''
       = [Print conflict_output, PrintList [''f.txt''],
         Print ''Checking out left1a'', Print ''Checking out right2b'',
          RunDiff3 ''./repos/base/r/f.txt'' ''./repos/merge_attempt1/r/f.txt''
            ''./repos/programmer_merge/r/f.txt'',
          MakeDirs ''out/42/gitmerge_ort'',
          WriteFile ''out/42/gitmerge_ort/diff_f.txt'' ''===='',
          Print ''Diff results saved to out/42/gitmerge_ort/diff_f.txt'',
          RunDiff3 ''./repos/base/r/f.txt'' ''./repos/merge_attempt2/r/f.txt''
            ''./repos/programmer_merge/r/f.txt'',
          MakeDirs ''out/42/spork'',
          WriteFile ''out/42/spork/diff_f.txt'' ''===='',
          Print ''Diff results saved to out/42/spork/diff_f.txt'']"
    by code_simp
  have b: "diff3_pair_analysis world_quiet ''gitmerge_ort'' ''spork'' 42 ''out''
       = diff3_pair_analysis world_noisy ''gitmerge_ort'' ''spork'' 42 ''out''"
    unfolding a by code_simp
  have c: "diff3_analysis world_noisy
       = ([RunDiff3 ''./repos/base/r/f.txt'' ''./repos/merge_attempt/r/f.txt''
             ''./repos/programmer_merge/r/f.txt'',
           WriteTemp ''===='', XdgOpen, RemoveTemp, Print ''reached delete repo''], Inr ())"
    by code_simp
  have d: "diff3_analysis world_quiet = diff3_analysis world_noisy"
    unfolding c by code_simp
  from s n a b c d show ?thesis by simp
qed

end
